theory Spec2Isabelle
  imports
    Complex_Main
    "HOL-Library.AList"
    "HOL-Library.Char_ord"
    "HOL-Library.List_Lexorder"
begin

section \<open>JSON values and the Python operations on them\<close>

text \<open>
  Everything \<^verbatim>\<open>server.py\<close> stores or receives is a JSON value as Python's \<^verbatim>\<open>json\<close>
  module reads it: \<^verbatim>\<open>None\<close>, a bool, an int, a float, a str, a list or a dict with
  string keys. A dict keeps its insertion order, so it is an association list (with
  distinct keys). A float is the rational it denotes; NaN and the infinities are not
  modelled. Comparisons of numbers are exact in Python, and so they are here; what a float
  addition rounds to is not computed but taken from the surroundings of the request.
\<close>

datatype json =
    JNull
  | JBool bool
  | JInt int
  | JFloat rat
  | JStr string
  | JList "json list"
  | JDict "(string \<times> json) list"

type_synonym dict = "(string \<times> json) list"

text \<open>The exceptions that the modelled code can raise.\<close>

datatype error = KeyError | TypeError | RecursionError

text \<open>\<^verbatim>\<open>d.get(k)\<close> is \<open>map_of d k\<close>; \<^verbatim>\<open>d.get(k, v)\<close> and \<^verbatim>\<open>d[k]\<close> follow.\<close>

definition get_or :: "dict \<Rightarrow> string \<Rightarrow> json \<Rightarrow> json" where
  "get_or d k v = (case map_of d k of None \<Rightarrow> v | Some x \<Rightarrow> x)"

definition getitem :: "dict \<Rightarrow> string \<Rightarrow> error + json" where
  "getitem d k = (case map_of d k of None \<Rightarrow> Inl KeyError | Some x \<Rightarrow> Inr x)"

text \<open>\<^verbatim>\<open>d[k] = v\<close>: an existing key keeps its position, a new key goes last.\<close>

definition setitem :: "dict \<Rightarrow> string \<Rightarrow> json \<Rightarrow> dict" where
  "setitem d k v = AList.update k v d"

text \<open>\<^verbatim>\<open>d.update(patch)\<close> assigns the items of \<open>patch\<close> one after the other.\<close>

definition dict_update :: "dict \<Rightarrow> dict \<Rightarrow> dict" where
  "dict_update d patch = fold (\<lambda>kv acc. setitem acc (fst kv) (snd kv)) patch d"

text \<open>Truth value of a JSON value in a Python condition.\<close>

fun truthy :: "json \<Rightarrow> bool" where
  "truthy JNull = False"
| "truthy (JBool b) = b"
| "truthy (JInt i) = (i \<noteq> 0)"
| "truthy (JFloat r) = (r \<noteq> 0)"
| "truthy (JStr s) = (s \<noteq> [])"
| "truthy (JList xs) = (xs \<noteq> [])"
| "truthy (JDict kvs) = (kvs \<noteq> [])"

text \<open>The number a value stands for in arithmetic and comparisons (\<^verbatim>\<open>bool\<close> is an \<^verbatim>\<open>int\<close>).\<close>

fun num_of :: "json \<Rightarrow> rat option" where
  "num_of (JBool b) = Some (if b then 1 else 0)"
| "num_of (JInt i) = Some (of_int i)"
| "num_of (JFloat r) = Some r"
| "num_of _ = None"

text \<open>
  Python's \<^verbatim>\<open>==\<close>: numbers compare by value across bool, int and float, lists
  element by element, dicts key by key whatever the order of the keys.
\<close>

fun py_eq :: "json \<Rightarrow> json \<Rightarrow> bool"
  and py_eq_list :: "json list \<Rightarrow> json list \<Rightarrow> bool"
  and py_eq_items :: "dict \<Rightarrow> dict \<Rightarrow> bool" where
  "py_eq JNull y = (y = JNull)"
| "py_eq (JBool b) y = (num_of y = Some (if b then 1 else 0))"
| "py_eq (JInt i) y = (num_of y = Some (of_int i))"
| "py_eq (JFloat r) y = (num_of y = Some r)"
| "py_eq (JStr s) y = (y = JStr s)"
| "py_eq (JList xs) y = (case y of JList ys \<Rightarrow> py_eq_list xs ys | _ \<Rightarrow> False)"
| "py_eq (JDict kvs) y =
     (case y of JDict kvs' \<Rightarrow> length kvs = length kvs' \<and> py_eq_items kvs kvs' | _ \<Rightarrow> False)"
| "py_eq_list [] ys = (ys = [])"
| "py_eq_list (x # xs) ys =
     (case ys of [] \<Rightarrow> False | y # ys' \<Rightarrow> py_eq x y \<and> py_eq_list xs ys')"
| "py_eq_items [] kvs' = True"
| "py_eq_items (kv # kvs) kvs' =
     (case map_of kvs' (fst kv) of None \<Rightarrow> False
      | Some v' \<Rightarrow> py_eq (snd kv) v' \<and> py_eq_items kvs kvs')"

text \<open>
  Python's \<^verbatim>\<open>>\<close>: numbers by value, strings and lists lexicographically; every other
  pair of operands raises \<^verbatim>\<open>TypeError\<close>.
\<close>

fun py_gt :: "json \<Rightarrow> json \<Rightarrow> error + bool"
  and py_gt_list :: "json list \<Rightarrow> json list \<Rightarrow> error + bool" where
  "py_gt (JStr a) y = (case y of JStr b \<Rightarrow> Inr (b < a) | _ \<Rightarrow> Inl TypeError)"
| "py_gt (JList xs) y = (case y of JList ys \<Rightarrow> py_gt_list xs ys | _ \<Rightarrow> Inl TypeError)"
| "py_gt JNull y = Inl TypeError"
| "py_gt (JDict kvs) y = Inl TypeError"
| "py_gt x y =
     (case (num_of x, num_of y) of (Some a, Some b) \<Rightarrow> Inr (b < a) | _ \<Rightarrow> Inl TypeError)"
| "py_gt_list [] ys = Inr False"
| "py_gt_list (x # xs) ys =
     (case ys of [] \<Rightarrow> Inr True
      | y # ys' \<Rightarrow> if py_eq x y then py_gt_list xs ys' else py_gt x y)"

text \<open>
  \<^verbatim>\<open>x + 1\<close>. On bools and ints the sum is exact. On a float it is the double nearest
  to the sum, which the first argument supplies.
\<close>

fun py_add1 :: "(rat \<Rightarrow> rat) \<Rightarrow> json \<Rightarrow> error + json" where
  "py_add1 fadd1 (JBool b) = Inr (JInt ((if b then 1 else 0) + 1))"
| "py_add1 fadd1 (JInt i) = Inr (JInt (i + 1))"
| "py_add1 fadd1 (JFloat r) = Inr (JFloat (fadd1 r))"
| "py_add1 fadd1 _ = Inl TypeError"

text \<open>Only \<^verbatim>\<open>None\<close>, numbers and strings can be keys of a dict or members of a set.\<close>

fun hashable :: "json \<Rightarrow> bool" where
  "hashable (JList xs) = False"
| "hashable (JDict kvs) = False"
| "hashable _ = True"


section \<open>The store: file, cache and the objects they share\<close>

text \<open>
  The database is one dict with the keys \<^verbatim>\<open>users\<close>, \<^verbatim>\<open>orders\<close>, \<^verbatim>\<open>settings\<close>,
  \<^verbatim>\<open>sessions\<close>, \<^verbatim>\<open>sync_log\<close> and \<^verbatim>\<open>last_modified\<close>, as \<^verbatim>\<open>init_db\<close> seeds it and
  \<^verbatim>\<open>save_db\<close> rewrites it; a file that parses to anything else is not modelled. On
  disk the keys hold values (type \<open>document\<close>); in memory they hold references to list
  and dict objects (type \<open>db\<close>), because \<^verbatim>\<open>dict.copy()\<close> copies the top-level dict
  only: the copy and the original name the same lists. The users, orders and sessions are
  dicts themselves, kept by value inside their list object, since the handlers modelled
  here change them through that list only. This is exact as long as no dict object stands
  at two positions of a list, which holds for the lists that \<^verbatim>\<open>json.load\<close> builds.
\<close>

record ('l, 'd) snapshot =
  users :: 'l
  orders :: 'l
  settings :: 'd
  sessions :: 'l
  sync_log :: 'l
  last_modified :: json

type_synonym addr = nat
type_synonym db = "(addr, addr) snapshot"
type_synonym document = "(dict list, dict) snapshot"

text \<open>What \<^verbatim>\<open>open(DB_FILE)\<close> followed by \<^verbatim>\<open>json.load\<close> finds.\<close>

datatype file_state = Missing | Unparsable | Holds document

text \<open>
  The state of the process and of its disk: the file with its modification time, whether
  a write of the file succeeds and, where it does not, whether it fails after
  \<^verbatim>\<open>open(DB_FILE, 'w')\<close> has emptied the file, the globals \<^verbatim>\<open>db_cache\<close> and
  \<^verbatim>\<open>db_last_modified\<close>, the list and dict objects by address, the next free address, and
  how many UUIDs have been drawn.
\<close>

record state =
  db_file :: file_state
  mtime :: int
  writable :: bool
  truncates :: bool
  db_cache :: "db option"
  db_last_modified :: int
  list_objs :: "addr \<Rightarrow> dict list"
  dict_objs :: "addr \<Rightarrow> dict"
  next_addr :: addr
  uuid_count :: nat

text \<open>
  What a request takes from its surroundings: the clock (one instant per request, in
  microseconds) with its ISO and day renderings, \<^verbatim>\<open>datetime.fromisoformat\<close> (\<open>None\<close>
  where it raises or yields a datetime that cannot be subtracted from \<^verbatim>\<open>now()\<close>), the
  source of UUIDs, the double that \<^verbatim>\<open>x + 1\<close> yields on a float \<open>x\<close>, and the number of
  nested calls of \<^verbatim>\<open>load_db\<close> and \<^verbatim>\<open>init_db\<close> that the interpreter's stack still takes
  before it raises \<^verbatim>\<open>RecursionError\<close> (the library calls inside them are taken to fit).
\<close>

record env =
  now :: int
  now_iso :: string
  today :: string
  fromisoformat :: "string \<Rightarrow> int option"
  uuid4 :: "nat \<Rightarrow> string"
  float_add1 :: "rat \<Rightarrow> rat"
  frames :: nat

definition new_list :: "dict list \<Rightarrow> state \<Rightarrow> addr \<times> state" where
  "new_list xs s =
     (next_addr s, s\<lparr>list_objs := (list_objs s)(next_addr s := xs), next_addr := Suc (next_addr s)\<rparr>)"

definition new_dict :: "dict \<Rightarrow> state \<Rightarrow> addr \<times> state" where
  "new_dict d s =
     (next_addr s, s\<lparr>dict_objs := (dict_objs s)(next_addr s := d), next_addr := Suc (next_addr s)\<rparr>)"

definition fresh_uuid :: "env \<Rightarrow> state \<Rightarrow> string \<times> state" where
  "fresh_uuid e s = (uuid4 e (uuid_count s), s\<lparr>uuid_count := Suc (uuid_count s)\<rparr>)"

text \<open>\<^verbatim>\<open>json.dump(data, f)\<close> writes the values behind the references.\<close>

definition dump :: "state \<Rightarrow> db \<Rightarrow> document" where
  "dump s d =
     \<lparr>users = list_objs s (users d), orders = list_objs s (orders d),
      settings = dict_objs s (settings d), sessions = list_objs s (sessions d),
      sync_log = list_objs s (sync_log d), last_modified = last_modified d\<rparr>"

text \<open>\<^verbatim>\<open>json.load(f)\<close> builds new objects.\<close>

definition load :: "document \<Rightarrow> state \<Rightarrow> db \<times> state" where
  "load v s =
     (let (u, s1) = new_list (users v) s;
          (ord, s2) = new_list (orders v) s1;
          (st, s3) = new_dict (settings v) s2;
          (ss, s4) = new_list (sessions v) s3;
          (sl, s5) = new_list (sync_log v) s4
      in (\<lparr>users = u, orders = ord, settings = st, sessions = ss, sync_log = sl,
           last_modified = last_modified v\<rparr>, s5))"

text \<open>
  \<^verbatim>\<open>save_db\<close> stamps the caller's dict, writes it, and keeps a copy in the cache. When
  the write raises, the stamp stays, the cache is not replaced and \<^verbatim>\<open>False\<close> is
  returned; the file is as it was when \<^verbatim>\<open>open\<close> raised, and holds the beginning of a
  JSON text at most, which does not parse, when \<^verbatim>\<open>json.dump\<close> raised after \<^verbatim>\<open>open\<close>
  had emptied it. The stamped dict is returned along, as the caller goes on reading it.
  A string of the model is a text as UTF-8 encodes it; a \<^verbatim>\<open>str\<close> with a lone
  surrogate, which \<^verbatim>\<open>json.load\<close> accepts from a request and on which the write raises,
  lies outside it.
\<close>

definition save_db :: "env \<Rightarrow> db \<Rightarrow> state \<Rightarrow> (bool \<times> db) \<times> state" where
  "save_db e data s =
     (let data' = data\<lparr>last_modified := JStr (now_iso e)\<rparr>
      in if writable s
         then ((True, data'),
               s\<lparr>db_file := Holds (dump s data'), mtime := now e,
                 db_cache := Some data', db_last_modified := now e\<rparr>)
         else if truncates s
         then ((False, data'), s\<lparr>db_file := Unparsable, mtime := now e\<rparr>)
         else ((False, data'), s))"

text \<open>The dict that \<^verbatim>\<open>init_db\<close> seeds.\<close>

definition seeded_admin :: "env \<Rightarrow> string \<Rightarrow> dict" where
  "seeded_admin e uid =
     [(''id'', JStr uid),
      (''email'', JStr ''12abc202@gmail.com''),
      (''password'', JStr ''d859616de4bc70b576e6833922b53112d39b05f5df3fc5e0c2201c193b7a4b6f''),
      (''isAdmin'', JBool True),
      (''createdAt'', JStr (now_iso e)),
      (''lastSync'', JStr (now_iso e)),
      (''devices'', JList [])]"

definition default_settings :: dict where
  "default_settings =
     [(''kgz_rate'', JFloat (177 / 2)),
      (''company_name'', JStr ''Cargo Management System''),
      (''company_phone'', JStr ''+996 XXX XXX XXX'')]"

definition default_db :: "env \<Rightarrow> string \<Rightarrow> document" where
  "default_db e uid =
     \<lparr>users = [seeded_admin e uid], orders = [], settings = default_settings,
      sessions = [], sync_log = [], last_modified = JStr (now_iso e)\<rparr>"

text \<open>
  The test that lets \<^verbatim>\<open>load_db\<close> answer from the cache: a cache, a file, and a file
  not newer than the cache.
\<close>

definition cache_fresh :: "state \<Rightarrow> bool" where
  "cache_fresh s \<longleftrightarrow> db_cache s \<noteq> None \<and> db_file s \<noteq> Missing \<and> mtime s \<le> db_last_modified s"

text \<open>
  \<^verbatim>\<open>load_db\<close> and \<^verbatim>\<open>init_db\<close> call each other: \<^verbatim>\<open>load_db\<close> falls back to
  \<^verbatim>\<open>init_db\<close> on any exception, and \<^verbatim>\<open>init_db\<close> ends with \<^verbatim>\<open>return load_db()\<close>.
  The first argument counts the frames left; at none the call raises
  \<^verbatim>\<open>RecursionError\<close>, which passes through the callers: it reaches \<^verbatim>\<open>load_db\<close> inside
  its \<^verbatim>\<open>except\<close> clause and \<^verbatim>\<open>init_db\<close> outside any \<^verbatim>\<open>try\<close>.
\<close>

fun load_db :: "nat \<Rightarrow> env \<Rightarrow> state \<Rightarrow> (error + db) \<times> state"
  and init_db :: "nat \<Rightarrow> env \<Rightarrow> state \<Rightarrow> (error + db) \<times> state" where
  "load_db 0 e s = (Inl RecursionError, s)"
| "load_db (Suc n) e s =
     (if cache_fresh s then (Inr (the (db_cache s)), s)
      else (case db_file s of
              Holds v \<Rightarrow>
                (let (d, s1) = load v s
                 in (Inr d, s1\<lparr>db_cache := Some d, db_last_modified := now e\<rparr>))
            | _ \<Rightarrow> init_db n e s))"
| "init_db 0 e s = (Inl RecursionError, s)"
| "init_db (Suc n) e s =
     (if db_file s = Missing
      then (let (uid, s1) = fresh_uuid e s;
                (d, s2) = load (default_db e uid) s1;
                ((ok, d'), s3) = save_db e d s2
            in load_db n e (s3\<lparr>db_cache := Some d', db_last_modified := now e\<rparr>))
      else load_db n e s)"


section \<open>Sessions\<close>

text \<open>\<^verbatim>\<open>timedelta(days=30)\<close> in microseconds.\<close>

definition thirty_days :: int where
  "thirty_days = 30 * 24 * 3600 * 1000000"

text \<open>
  The inner loop of \<^verbatim>\<open>verify_token\<close>: the first user whose id equals \<open>uid\<close> gets
  \<^verbatim>\<open>lastActivity\<close> stamped in place. The result is that user and the list after the
  stamping, \<open>None\<close> when no user matches, \<^verbatim>\<open>KeyError\<close> when a user met before the
  match has no id.
\<close>

fun stamp_user :: "string \<Rightarrow> dict list \<Rightarrow> json \<Rightarrow> error + (dict \<times> dict list) option" where
  "stamp_user t [] uid = Inr None"
| "stamp_user t (u # us) uid =
     (case getitem u ''id'' of
        Inl err \<Rightarrow> Inl err
      | Inr i \<Rightarrow>
          if py_eq i uid
          then Inr (Some (setitem u ''lastActivity'' (JStr t), setitem u ''lastActivity'' (JStr t) # us))
          else (case stamp_user t us uid of
                  Inl err \<Rightarrow> Inl err
                | Inr None \<Rightarrow> Inr None
                | Inr (Some (x, us')) \<Rightarrow> Inr (Some (x, u # us'))))"

text \<open>
  One turn of the loop over the sessions, on \<^verbatim>\<open>active_sessions\<close>, \<^verbatim>\<open>user\<close> and the
  list of users. Whatever raises inside the \<^verbatim>\<open>try\<close> ends the turn with what was done
  before it.
\<close>

definition session_live :: "env \<Rightarrow> dict \<Rightarrow> bool" where
  "session_live e ss =
     (case map_of ss ''created'' of
        Some (JStr c) \<Rightarrow>
          (case fromisoformat e c of Some t \<Rightarrow> now e - t < thirty_days | None \<Rightarrow> False)
      | _ \<Rightarrow> False)"

definition session_step ::
  "env \<Rightarrow> string \<Rightarrow> dict \<Rightarrow> dict list \<times> dict option \<times> dict list
     \<Rightarrow> dict list \<times> dict option \<times> dict list" where
  "session_step e token ss acc =
     (case acc of (act, usr, us) \<Rightarrow>
        if session_live e ss
        then (case map_of ss ''token'' of
                None \<Rightarrow> (act @ [ss], usr, us)
              | Some tk \<Rightarrow>
                  if py_eq tk (JStr token)
                  then (case stamp_user (now_iso e) us (get_or ss ''user_id'' JNull) of
                          Inr (Some (u, us')) \<Rightarrow> (act @ [ss], Some u, us')
                        | _ \<Rightarrow> (act @ [ss], usr, us))
                  else (act @ [ss], usr, us))
        else (act, usr, us))"

definition verify_token :: "env \<Rightarrow> string \<Rightarrow> state \<Rightarrow> (error + dict option) \<times> state" where
  "verify_token e token s =
     (if token = [] then (Inr None, s)
      else (case load_db (frames e) e s of
              (Inl err, s1) \<Rightarrow> (Inl err, s1)
            | (Inr d, s1) \<Rightarrow>
                (let ss = list_objs s1 (sessions d);
                     (act, usr, us) = fold (session_step e token) ss ([], None, list_objs s1 (users d));
                     s2 = s1\<lparr>list_objs := (list_objs s1)(users d := us)\<rparr>
                 in if length act \<noteq> length ss
                    then (let (a, s3) = new_list act s2;
                              (r, s4) = save_db e (d\<lparr>sessions := a\<rparr>) s3
                          in (Inr usr, s4))
                    else (Inr usr, s2))))"


section \<open>Orders\<close>

text \<open>
  A handler takes the token that is left of the \<^verbatim>\<open>Authorization\<close> header once
  \<^verbatim>\<open>'Bearer '\<close> is removed, and the JSON object of the request body as a dict. It
  answers with its JSON body on success, with one of the error statuses, or with status
  500 when an exception leaves the handler (or is caught by its \<^verbatim>\<open>try\<close>).
\<close>

datatype 'a response = Ok 'a | Unauthorized | Forbidden | NotFound | ServerError error

text \<open>\<^verbatim>\<open>if not user\<close>: the user is \<^verbatim>\<open>None\<close> or an empty dict.\<close>

definition no_user :: "dict option \<Rightarrow> bool" where
  "no_user usr = (case usr of None \<Rightarrow> True | Some u \<Rightarrow> u = [])"

text \<open>\<^verbatim>\<open>[o for o in orders if o.get('userId') == user['id']]\<close>\<close>

definition own_orders :: "dict \<Rightarrow> dict list \<Rightarrow> error + dict list" where
  "own_orders user ords =
     (if ords = [] then Inr []
      else (case getitem user ''id'' of
              Inl err \<Rightarrow> Inl err
            | Inr uid \<Rightarrow> Inr (filter (\<lambda>x. py_eq (get_or x ''userId'' JNull) uid) ords)))"

record orders_reply =
  reply_orders :: "dict list"
  reply_total :: nat
  reply_lastSync :: json

definition get_orders :: "env \<Rightarrow> string \<Rightarrow> state \<Rightarrow> orders_reply response \<times> state" where
  "get_orders e token s =
     (case verify_token e token s of
        (Inl err, s1) \<Rightarrow> (ServerError err, s1)
      | (Inr usr, s1) \<Rightarrow>
          if no_user usr then (Unauthorized, s1)
          else (case load_db (frames e) e s1 of
                  (Inl err, s2) \<Rightarrow> (ServerError err, s2)
                | (Inr d, s2) \<Rightarrow>
                    (case (if \<not> truthy (get_or (the usr) ''isAdmin'' (JBool False))
                           then own_orders (the usr) (list_objs s2 (orders d))
                           else Inr (list_objs s2 (orders d))) of
                       Inl err \<Rightarrow> (ServerError err, s2)
                     | Inr ords \<Rightarrow>
                         (Ok \<lparr>reply_orders = ords, reply_total = length ords,
                              reply_lastSync = last_modified d\<rparr>, s2))))"





definition set_orders :: "db \<Rightarrow> dict list \<Rightarrow> state \<Rightarrow> state" where
  "set_orders d ords s = s\<lparr>list_objs := (list_objs s)(orders d := ords)\<rparr>"



text \<open>
  The loop of \<^verbatim>\<open>update_order\<close> looks for the first order whose id is the id of the
  URL; an order without id met before it raises \<^verbatim>\<open>KeyError\<close>.
\<close>

fun find_order :: "dict list \<Rightarrow> string \<Rightarrow> error + nat option" where
  "find_order [] order_id = Inr None"
| "find_order (x # xs) order_id =
     (case getitem x ''id'' of
        Inl err \<Rightarrow> Inl err
      | Inr i \<Rightarrow>
          if py_eq i (JStr order_id) then Inr (Some 0)
          else (case find_order xs order_id of
                  Inl err \<Rightarrow> Inl err
                | Inr None \<Rightarrow> Inr None
                | Inr (Some k) \<Rightarrow> Inr (Some (Suc k))))"

text \<open>
  \<^verbatim>\<open>not user.get('isAdmin') and order.get('userId') != user['id']\<close>: the second
  operand, which may raise, is evaluated only for a caller who is no admin.
\<close>

definition forbidden :: "dict \<Rightarrow> dict \<Rightarrow> error + bool" where
  "forbidden user ord =
     (if truthy (get_or user ''isAdmin'' JNull) then Inr False
      else (case getitem user ''id'' of
              Inl err \<Rightarrow> Inl err
            | Inr uid \<Rightarrow> Inr (\<not> py_eq (get_or ord ''userId'' JNull) uid)))"

text \<open>
  \<^verbatim>\<open>update_order\<close> after authentication. \<^verbatim>\<open>order.update(data)\<close> and the stamp of
  \<^verbatim>\<open>updatedAt\<close> stay when the addition raises. As in \<^verbatim>\<open>create_order\<close>, the write
  goes to the position found, and in the code to every position that holds the same dict
  object.
\<close>

definition update_order_as ::
  "env \<Rightarrow> dict \<Rightarrow> string \<Rightarrow> dict \<Rightarrow> state \<Rightarrow> dict response \<times> state" where
  "update_order_as e user order_id data s =
     (case load_db (frames e) e s of
        (Inl err, s1) \<Rightarrow> (ServerError err, s1)
      | (Inr d, s1) \<Rightarrow>
          (let ords = list_objs s1 (orders d)
           in case find_order ords order_id of
                Inl err \<Rightarrow> (ServerError err, s1)
              | Inr None \<Rightarrow> (NotFound, s1)
              | Inr (Some i) \<Rightarrow>
                  (case forbidden user (ords ! i) of
                     Inl err \<Rightarrow> (ServerError err, s1)
                   | Inr True \<Rightarrow> (Forbidden, s1)
                   | Inr False \<Rightarrow>
                       (let o1 = setitem (dict_update (ords ! i) data) ''updatedAt'' (JStr (now_iso e))
                        in case py_add1 (float_add1 e) (get_or o1 ''syncVersion'' (JInt 0)) of
                             Inl err \<Rightarrow> (ServerError err, set_orders d (ords[i := o1]) s1)
                           | Inr v \<Rightarrow>
                               (let o2 = setitem o1 ''syncVersion'' v;
                                    (r, s2) = save_db e d (set_orders d (ords[i := o2]) s1)
                                in (Ok o2, s2))))))"

definition update_order ::
  "env \<Rightarrow> string \<Rightarrow> string \<Rightarrow> dict \<Rightarrow> state \<Rightarrow> dict response \<times> state" where
  "update_order e token order_id data s =
     (case verify_token e token s of
        (Inl err, s1) \<Rightarrow> (ServerError err, s1)
      | (Inr usr, s1) \<Rightarrow>
          if no_user usr then (Unauthorized, s1) else update_order_as e (the usr) order_id data s1)"


section \<open>Synchronisation\<close>

text \<open>
  \<^verbatim>\<open>merged_orders\<close> is a Python dict from order ids to orders. Its keys are compared
  with \<^verbatim>\<open>==\<close>, an assignment to a key already there keeps the key and its position,
  and \<^verbatim>\<open>values()\<close> lists the orders in the order of first insertion.
\<close>

type_synonym merge_map = "(json \<times> dict) list"

fun mm_get :: "json \<Rightarrow> merge_map \<Rightarrow> dict option" where
  "mm_get k [] = None"
| "mm_get k (kv # m) = (if py_eq (fst kv) k then Some (snd kv) else mm_get k m)"

fun mm_set :: "json \<Rightarrow> dict \<Rightarrow> merge_map \<Rightarrow> merge_map" where
  "mm_set k v [] = [(k, v)]"
| "mm_set k v (kv # m) = (if py_eq (fst kv) k then (fst kv, v) # m else kv # mm_set k v m)"

text \<open>
  The first loop of \<^verbatim>\<open>sync_data\<close> enters the server's orders under \<^verbatim>\<open>order['id']\<close>.
\<close>

fun seed :: "dict list \<Rightarrow> merge_map \<Rightarrow> error + merge_map" where
  "seed [] m = Inr m"
| "seed (x # xs) m =
     (case getitem x ''id'' of
        Inl err \<Rightarrow> Inl err
      | Inr k \<Rightarrow> if hashable k then seed xs (mm_set k x m) else Inl TypeError)"

text \<open>
  \<^verbatim>\<open>order['userId'] = user['id']; order['userEmail'] = user['email']\<close> on a client's
  order.
\<close>

definition stamp_owner :: "dict \<Rightarrow> dict \<Rightarrow> error + dict" where
  "stamp_owner user ord =
     (case getitem user ''id'' of
        Inl err \<Rightarrow> Inl err
      | Inr uid \<Rightarrow>
          (case getitem user ''email'' of
             Inl err \<Rightarrow> Inl err
           | Inr email \<Rightarrow> Inr (setitem (setitem ord ''userId'' uid) ''userEmail'' email)))"

text \<open>The second loop merges the client's orders, drawing a UUID for each order without id.\<close>

fun merge :: "env \<Rightarrow> dict \<Rightarrow> dict list \<Rightarrow> merge_map \<Rightarrow> state \<Rightarrow> (error + merge_map) \<times> state" where
  "merge e user [] m s = (Inr m, s)"
| "merge e user (c # cs) m s =
     (if \<not> truthy (get_or c ''id'' JNull)
      then (let (order_id, s1) = fresh_uuid e s
            in case stamp_owner user (setitem c ''id'' (JStr order_id)) of
                 Inl err \<Rightarrow> (Inl err, s1)
               | Inr c1 \<Rightarrow>
                   merge e user cs (mm_set (JStr order_id) (setitem c1 ''syncVersion'' (JInt 1)) m) s1)
      else if \<not> hashable (get_or c ''id'' JNull) then (Inl TypeError, s)
      else (case mm_get (get_or c ''id'' JNull) m of
              Some server_order \<Rightarrow>
                (case py_gt (get_or c ''syncVersion'' (JInt 0))
                            (get_or server_order ''syncVersion'' (JInt 0)) of
                   Inl err \<Rightarrow> (Inl err, s)
                 | Inr True \<Rightarrow> merge e user cs (mm_set (get_or c ''id'' JNull) c m) s
                 | Inr False \<Rightarrow> merge e user cs m s)
            | None \<Rightarrow>
                (case stamp_owner user c of
                   Inl err \<Rightarrow> (Inl err, s)
                 | Inr c1 \<Rightarrow> merge e user cs (mm_set (get_or c ''id'' JNull) c1 m) s)))"

text \<open>
  \<^verbatim>\<open>[o for o in all_orders if o.get('userId') != user['id'] or o['id'] not in user_order_ids]\<close>:
  the right operand, which may raise, is evaluated for the caller's orders only.
\<close>

fun keep_orders :: "dict \<Rightarrow> merge_map \<Rightarrow> dict list \<Rightarrow> error + dict list" where
  "keep_orders user m [] = Inr []"
| "keep_orders user m (x # xs) =
     (case getitem user ''id'' of
        Inl err \<Rightarrow> Inl err
      | Inr uid \<Rightarrow>
          if \<not> py_eq (get_or x ''userId'' JNull) uid
          then (case keep_orders user m xs of Inl err \<Rightarrow> Inl err | Inr r \<Rightarrow> Inr (x # r))
          else (case getitem x ''id'' of
                  Inl err \<Rightarrow> Inl err
                | Inr k \<Rightarrow>
                    if \<not> hashable k then Inl TypeError
                    else (case keep_orders user m xs of
                            Inl err \<Rightarrow> Inl err
                          | Inr r \<Rightarrow> Inr (if mm_get k m = None then x # r else r))))"

text \<open>
  The orders that \<^verbatim>\<open>sync_data\<close> merges with: all of them for an admin, the caller's
  own otherwise.
\<close>

definition server_orders :: "dict \<Rightarrow> dict list \<Rightarrow> error + dict list" where
  "server_orders user all_orders =
     (if \<not> truthy (get_or user ''isAdmin'' JNull) then own_orders user all_orders
      else Inr all_orders)"

record sync_reply =
  reply_merged :: "dict list"
  reply_serverTime :: string
  reply_syncVersion :: json

text \<open>
  \<^verbatim>\<open>sync_data\<close> after authentication, on the orders of the request body. Every
  exception is caught by the handler's \<^verbatim>\<open>try\<close> and answered with status 500.
\<close>

definition sync_data_as ::
  "env \<Rightarrow> dict \<Rightarrow> dict list \<Rightarrow> state \<Rightarrow> sync_reply response \<times> state" where
  "sync_data_as e user client_orders s =
     (case load_db (frames e) e s of
        (Inl err, s1) \<Rightarrow> (ServerError err, s1)
      | (Inr d, s1) \<Rightarrow>
          (case server_orders user (list_objs s1 (orders d)) of
             Inl err \<Rightarrow> (ServerError err, s1)
           | Inr mine \<Rightarrow>
               (case seed mine [] of
                  Inl err \<Rightarrow> (ServerError err, s1)
                | Inr m0 \<Rightarrow>
                    (case merge e user client_orders m0 s1 of
                       (Inl err, s2) \<Rightarrow> (ServerError err, s2)
                     | (Inr m, s2) \<Rightarrow>
                         (case keep_orders user m (list_objs s2 (orders d)) of
                            Inl err \<Rightarrow> (ServerError err, s2)
                          | Inr kept \<Rightarrow>
                              (let (a, s3) = new_list (kept @ map snd m) s2;
                                   (r, s4) = save_db e (d\<lparr>orders := a\<rparr>) s3
                               in (Ok \<lparr>reply_merged = map snd m, reply_serverTime = now_iso e,
                                        reply_syncVersion = last_modified (snd r)\<rparr>, s4)))))))"

definition sync_data ::
  "env \<Rightarrow> string \<Rightarrow> dict list \<Rightarrow> state \<Rightarrow> sync_reply response \<times> state" where
  "sync_data e token client_orders s =
     (case verify_token e token s of
        (Inl err, s1) \<Rightarrow> (ServerError err, s1)
      | (Inr usr, s1) \<Rightarrow>
          if no_user usr then (Unauthorized, s1) else sync_data_as e (the usr) client_orders s1)"


section \<open>Settings\<close>

text \<open>
  \<^verbatim>\<open>get_setting\<close> reads no token. Its dict of defaults has the entries of the
  settings that \<^verbatim>\<open>init_db\<close> seeds. The database always has its \<^verbatim>\<open>settings\<close>, so
  \<^verbatim>\<open>set_setting\<close> never has to create them.
\<close>

definition get_setting :: "env \<Rightarrow> string \<Rightarrow> state \<Rightarrow> json response \<times> state" where
  "get_setting e key s =
     (case load_db (frames e) e s of
        (Inl err, s1) \<Rightarrow> (ServerError err, s1)
      | (Inr d, s1) \<Rightarrow>
          (case map_of (dict_objs s1 (settings d)) key of
             Some v \<Rightarrow> (Ok v, s1)
           | None \<Rightarrow>
               (case map_of default_settings key of
                  Some v \<Rightarrow> (Ok v, s1)
                | None \<Rightarrow> (NotFound, s1))))"

definition set_setting ::
  "env \<Rightarrow> string \<Rightarrow> string \<Rightarrow> dict \<Rightarrow> state \<Rightarrow> (string \<times> json) response \<times> state" where
  "set_setting e token key data s =
     (case verify_token e token s of
        (Inl err, s1) \<Rightarrow> (ServerError err, s1)
      | (Inr usr, s1) \<Rightarrow>
          if no_user usr then (Unauthorized, s1)
          else (case load_db (frames e) e s1 of
                  (Inl err, s2) \<Rightarrow> (ServerError err, s2)
                | (Inr d, s2) \<Rightarrow>
                    (let value = get_or data ''value'' JNull;
                         s3 = s2\<lparr>dict_objs := (dict_objs s2)
                                (settings d := setitem (dict_objs s2 (settings d)) key value)\<rparr>;
                         (r, s4) = save_db e d s3
                     in (Ok (key, value), s4))))"


section \<open>Example data\<close>

text \<open>
  A clock that reads 1 March 2024 and knows three dates (1 January, 20 February and
  1 March 2024, counted from 1 January), and a process that has just started on an empty
  disk.
\<close>

definition example_iso :: "string \<Rightarrow> int option" where
  "example_iso t =
     (if t = ''2024-01-01T00:00:00'' then Some 0
      else if t = ''2024-02-20T00:00:00'' then Some 4320000000000
      else if t = ''2024-03-01T00:00:00'' then Some 5184000000000
      else None)"

definition example_env :: env where
  "example_env =
     \<lparr>now = 5184000000000, now_iso = ''2024-03-01T00:00:00'', today = ''01.03.2024'',
      fromisoformat = example_iso, uuid4 = (\<lambda>n. ''uuid-'' @ replicate n (CHR ''i'')),
      float_add1 = (\<lambda>r. r + 1), frames = 900\<rparr>"

definition empty_state :: state where
  "empty_state =
     \<lparr>db_file = Missing, mtime = 0, writable = True, truncates = False, db_cache = None,
      db_last_modified = 0,
      list_objs = (\<lambda>a. []), dict_objs = (\<lambda>a. []), next_addr = 0, uuid_count = 0\<rparr>"


text \<open>What the file holds, if it holds a database.\<close>

definition stored :: "state \<Rightarrow> document option" where
  "stored s = (case db_file s of Holds doc \<Rightarrow> Some doc | _ \<Rightarrow> None)"

text \<open>
  A store with an admin \<open>a0\<close> and a user \<open>u1\<close>, an order of \<open>u1\<close> and one of a third
  user \<open>u2\<close>, and a session for each of \<open>u1\<close> and \<open>a0\<close> that began on 20 February. The
  file was written on that day and the cache holds what the file holds.
\<close>

definition admin_user :: dict where
  "admin_user =
     [(''id'', JStr ''a0''), (''email'', JStr ''12abc202@gmail.com''), (''isAdmin'', JBool True)]"

definition plain_user :: dict where
  "plain_user =
     [(''id'', JStr ''u1''), (''email'', JStr ''u1@example.com''), (''isAdmin'', JBool False)]"

definition order_o1 :: dict where
  "order_o1 =
     [(''id'', JStr ''o1''), (''userId'', JStr ''u1''), (''fileName'', JStr ''flightA''),
      (''data'', JList []), (''syncVersion'', JInt 2)]"

definition order_o2 :: dict where
  "order_o2 =
     [(''id'', JStr ''o2''), (''userId'', JStr ''u2''), (''fileName'', JStr ''flightC''),
      (''data'', JList []), (''syncVersion'', JInt 1)]"

definition session_of :: "string \<Rightarrow> string \<Rightarrow> string \<Rightarrow> dict" where
  "session_of token uid created =
     [(''token'', JStr token), (''user_id'', JStr uid), (''created'', JStr created)]"

definition example_doc :: document where
  "example_doc =
     \<lparr>users = [admin_user, plain_user], orders = [order_o1, order_o2],
      settings = [(''kgz_rate'', JInt 90)],
      sessions = [session_of ''token-u1'' ''u1'' ''2024-02-20T00:00:00'',
                  session_of ''token-a0'' ''a0'' ''2024-02-20T00:00:00''],
      sync_log = [], last_modified = JStr ''2024-02-20T00:00:00''\<rparr>"

definition example_db :: db where
  "example_db =
     \<lparr>users = 0, orders = 1, settings = 2, sessions = 3, sync_log = 4,
      last_modified = JStr ''2024-02-20T00:00:00''\<rparr>"

definition example_state :: state where
  "example_state =
     \<lparr>db_file = Holds example_doc, mtime = 4320000000000, writable = True,
      truncates = False,
      db_cache = Some example_db, db_last_modified = 4320000000000,
      list_objs = (\<lambda>a. if a = 0 then users example_doc else if a = 1 then orders example_doc
                        else if a = 3 then sessions example_doc else []),
      dict_objs = (\<lambda>a. if a = 2 then settings example_doc else []),
      next_addr = 5, uuid_count = 0\<rparr>"

text \<open>The same store with one more session of \<open>u1\<close>, begun on 1 January.\<close>

definition old_session :: dict where
  "old_session = session_of ''token-old'' ''u1'' ''2024-01-01T00:00:00''"

definition stale_state :: state where
  "stale_state =
     example_state
       \<lparr>db_file := Holds (example_doc\<lparr>sessions := old_session # sessions example_doc\<rparr>),
        list_objs := (list_objs example_state)(3 := old_session # sessions example_doc)\<rparr>"


text \<open>A user as \<^verbatim>\<open>verify_token\<close> returns them on 1 March.\<close>

definition stamped :: "dict \<Rightarrow> dict" where
  "stamped u = u @ [(''lastActivity'', JStr ''2024-03-01T00:00:00'')]"



definition serves :: "state \<Rightarrow> addr \<Rightarrow> dict list \<Rightarrow> bool" where
  "serves s a ords \<longleftrightarrow>
     cache_fresh s \<and> writable s \<and> list_objs s a = ords
     \<and> (\<exists>d. db_cache s = Some d \<and> orders d = a \<and> users d \<noteq> a \<and> a < next_addr s)"








text \<open>
  Notions for the proofs about \<^verbatim>\<open>sync_data\<close>: an order carries the id \<open>k\<close>; an order
  belongs to the user \<open>uid\<close>, as the handlers test it; every entry of a merge map stands
  under a key that can be hashed and that its order carries; no two keys of a merge map
  are equal.
\<close>

definition id_is :: "json \<Rightarrow> dict \<Rightarrow> bool" where
  "id_is k x = (case map_of x ''id'' of Some k' \<Rightarrow> py_eq k' k | None \<Rightarrow> False)"

definition owned_by :: "json \<Rightarrow> dict \<Rightarrow> bool" where
  "owned_by uid x = py_eq (get_or x ''userId'' JNull) uid"

definition keyed :: "merge_map \<Rightarrow> bool" where
  "keyed m \<longleftrightarrow> (\<forall>kv\<in>set m. hashable (fst kv) \<and> id_is (fst kv) (snd kv))"

fun unique_keys :: "merge_map \<Rightarrow> bool" where
  "unique_keys [] = True"
| "unique_keys (kv # m) = (mm_get (fst kv) m = None \<and> unique_keys m)"

text \<open>
  Orders that a client of \<open>u1\<close> sends: three edits of \<open>o1\<close> at the versions 5, 7 and 1,
  and an order made on the device, which has no id yet; that last order as the server
  returns it, under the first and under the second id drawn; and an order that names
  nothing but the id of \<open>o2\<close>, the order of another user.
\<close>

definition edit_v5 :: dict where
  "edit_v5 =
     [(''id'', JStr ''o1''), (''userId'', JStr ''u1''), (''fileName'', JStr ''flightA''),
      (''data'', JList [JList [JStr ''edited'']]), (''syncVersion'', JInt 5)]"

definition edit_v7 :: dict where
  "edit_v7 =
     [(''id'', JStr ''o1''), (''userId'', JStr ''u1''), (''fileName'', JStr ''flightA''),
      (''data'', JList [JList [JStr ''edited again'']]), (''syncVersion'', JInt 7)]"

definition edit_v1 :: dict where
  "edit_v1 =
     [(''id'', JStr ''o1''), (''userId'', JStr ''u1''), (''fileName'', JStr ''flightA''),
      (''data'', JList [JList [JStr ''stale'']]), (''syncVersion'', JInt 1)]"

definition local_order :: dict where
  "local_order = [(''fileName'', JStr ''flightB''), (''data'', JList [])]"

definition local_order_synced :: dict where
  "local_order_synced =
     [(''fileName'', JStr ''flightB''), (''data'', JList []), (''id'', JStr ''uuid-''),
      (''userId'', JStr ''u1''), (''userEmail'', JStr ''u1@example.com''), (''syncVersion'', JInt 1)]"


definition claimed_o2 :: dict where
  "claimed_o2 = [(''id'', JStr ''o2''), (''syncVersion'', JInt 0)]"


text \<open>
  A patch whose \<^verbatim>\<open>syncVersion\<close> is a string, and the order \<open>o1\<close> after
  \<^verbatim>\<open>update_order\<close> has merged that patch and stamped \<^verbatim>\<open>updatedAt\<close>.
\<close>

definition bad_patch :: dict where
  "bad_patch = [(''syncVersion'', JStr ''x'')]"

definition half_patched :: dict where
  "half_patched =
     [(''id'', JStr ''o1''), (''userId'', JStr ''u1''), (''fileName'', JStr ''flightA''),
      (''data'', JList []), (''syncVersion'', JStr ''x''),
      (''updatedAt'', JStr ''2024-03-01T00:00:00'')]"


section \<open>The store: loading and seeding\<close>

lemma load_db_pos:
  "0 < n \<Longrightarrow> load_db n e s =
     (if cache_fresh s then (Inr (the (db_cache s)), s)
      else (case db_file s of
              Holds v \<Rightarrow>
                (let (d, s1) = load v s
                 in (Inr d, s1\<lparr>db_cache := Some d, db_last_modified := now e\<rparr>))
            | _ \<Rightarrow> init_db (n - 1) e s))"
  by (cases n) (auto split: file_state.splits)

lemma init_db_pos:
  "0 < n \<Longrightarrow> init_db n e s =
     (if db_file s = Missing
      then (let (uid, s1) = fresh_uuid e s;
                (d, s2) = load (default_db e uid) s1;
                ((ok, d'), s3) = save_db e d s2
            in load_db (n - 1) e (s3\<lparr>db_cache := Some d', db_last_modified := now e\<rparr>))
      else load_db (n - 1) e s)"
  by (cases n) simp_all

text \<open>
  With no file, a disk that takes the write and three frames, \<^verbatim>\<open>load_db\<close> seeds the
  default database, writes it and returns it.
\<close>

lemma load_db_missing_seeds:
  assumes "db_file s = Missing" "writable s" "3 \<le> n"
  shows "\<exists>d s'. load_db n e s = (Inr d, s')
           \<and> dump s' d = default_db e (uuid4 e (uuid_count s))
           \<and> db_file s' = Holds (default_db e (uuid4 e (uuid_count s)))
           \<and> db_cache s' = Some d"
  using assms
  by (simp add: load_db_pos init_db_pos cache_fresh_def fresh_uuid_def load_def new_list_def
      new_dict_def save_db_def dump_def default_db_def Let_def split: prod.splits)

text \<open>
  A file that does not parse sends \<^verbatim>\<open>load_db\<close> to \<^verbatim>\<open>init_db\<close>, which finds the
  file in place, seeds nothing and calls \<^verbatim>\<open>load_db\<close> again: the two calls alternate
  until the stack is used up.
\<close>

lemma load_db_unparsable:
  "db_file s = Unparsable \<Longrightarrow> \<not> cache_fresh s \<Longrightarrow> load_db n e s = (Inl RecursionError, s)"
  "db_file s = Unparsable \<Longrightarrow> \<not> cache_fresh s \<Longrightarrow> init_db n e s = (Inl RecursionError, s)"
  by (induction n e s and n e s rule: load_db_init_db.induct) simp_all

text \<open>
  C1. When the file exists but does not parse and the cache cannot answer, \<^verbatim>\<open>load_db\<close>
  returns no database, whatever the depth of stack it is given: it ends in
  \<^verbatim>\<open>RecursionError\<close> and leaves the file as it was, instead of seeding the default
  database.
\<close>

theorem load_db_unparsable_never_returns:
  "db_file s = Unparsable \<Longrightarrow> \<not> cache_fresh s \<Longrightarrow> load_db n e s = (Inl RecursionError, s)"
  by (rule load_db_unparsable)

theorem load_db_unparsable_never_returns_witness:
  "db_file (empty_state\<lparr>db_file := Unparsable\<rparr>) = Unparsable
   \<and> \<not> cache_fresh (empty_state\<lparr>db_file := Unparsable\<rparr>)
   \<and> load_db 900 example_env (empty_state\<lparr>db_file := Unparsable\<rparr>)
       = (Inl RecursionError, empty_state\<lparr>db_file := Unparsable\<rparr>)"
  using load_db_unparsable_never_returns [of "empty_state\<lparr>db_file := Unparsable\<rparr>" 900 example_env]
  by (simp add: cache_fresh_def empty_state_def)


text \<open>
  A write that fails after the file was opened leaves a file that no longer parses, and
  the cache as it was.
\<close>

lemma save_db_torn:
  "\<not> writable s \<Longrightarrow> truncates s \<Longrightarrow>
     fst (fst (save_db e d s)) = False \<and> db_file (snd (save_db e d s)) = Unparsable
     \<and> db_cache (snd (save_db e d s)) = db_cache s"
  by (simp add: save_db_def Let_def)

lemma load_db_writable:
  "writable (snd (load_db n e s)) = writable s"
  "writable (snd (init_db n e s)) = writable s"
  by (induction n e s and n e s rule: load_db_init_db.induct)
    (auto simp add: load_def new_list_def new_dict_def fresh_uuid_def save_db_def Let_def
      split: file_state.splits prod.splits)

lemma example_load [simp]:
  "load_db (frames example_env) example_env example_state = (Inr example_db, example_state)"
  by (simp add: load_db_pos cache_fresh_def example_state_def example_env_def)

lemma stale_load [simp]:
  "load_db (frames example_env) example_env stale_state = (Inr example_db, stale_state)"
  by (simp add: load_db_pos cache_fresh_def stale_state_def example_state_def example_env_def)


section \<open>Python's equality on the values that can be keys\<close>

lemma py_eq_JStr [simp]: "py_eq x (JStr t) \<longleftrightarrow> x = JStr t"
  by (cases x) (auto split: json.splits)

lemma py_eq_hashable: "hashable a \<Longrightarrow> py_eq a b \<Longrightarrow> hashable b"
  by (cases a; cases b) auto

lemma py_eq_refl: "hashable a \<Longrightarrow> py_eq a a"
  by (cases a) auto

lemma py_eq_sym: "hashable a \<Longrightarrow> py_eq a b \<Longrightarrow> py_eq b a"
  by (cases a; cases b) (auto split: if_splits)

lemma py_eq_trans: "hashable a \<Longrightarrow> py_eq a b \<Longrightarrow> py_eq b c \<Longrightarrow> py_eq a c"
  by (cases a; cases b; cases c) (auto split: if_splits)


section \<open>Sessions expire\<close>

text \<open>The loop keeps the sessions that are younger than thirty days, in their order.\<close>

lemma session_step_active:
  "fst (fold (session_step e token) ss (act, usr, us)) = act @ filter (session_live e) ss"
proof (induction ss arbitrary: act usr us)
  case Nil
  then show ?case by simp
next
  case (Cons x ss)
  obtain act' usr' us' where st: "session_step e token x (act, usr, us) = (act', usr', us')"
    by (cases "session_step e token x (act, usr, us)") auto
  have "act' = (if session_live e x then act @ [x] else act)"
    using st by (auto simp add: session_step_def split: option.splits sum.splits if_splits)
  then show ?case using Cons.IH [of act' usr' us'] st by simp
qed

text \<open>Without a live session that carries the token, no user is found or touched.\<close>

lemma session_step_no_match:
  assumes "\<forall>y\<in>set ss. session_live e y \<longrightarrow> map_of y ''token'' \<noteq> Some (JStr token)"
  shows "snd (fold (session_step e token) ss (act, usr, us)) = (usr, us)"
  using assms
proof (induction ss arbitrary: act)
  case Nil
  then show ?case by simp
next
  case (Cons x ss)
  have "session_step e token x (act, usr, us)
          = (if session_live e x then act @ [x] else act, usr, us)"
    using Cons.prems by (auto simp add: session_step_def split: option.splits)
  then show ?case using Cons by simp
qed

text \<open>
  C8. Let a session of the loaded database be thirty days old or older, and let its token
  name no other session. Then \<^verbatim>\<open>verify_token\<close> with that token returns \<^verbatim>\<open>None\<close>; and
  every call of \<^verbatim>\<open>verify_token\<close> with a token that is not empty, on a disk that takes
  the write, leaves in the file exactly the sessions younger than thirty days, the old
  session not among them.
\<close>

theorem verify_token_expired_session:
  assumes load: "load_db (frames e) e s = (Inr d, s1)"
    and x: "x \<in> set (list_objs s1 (sessions d))"
    and created: "map_of x ''created'' = Some (JStr c)" "fromisoformat e c = Some t"
      "thirty_days \<le> now e - t"
    and tok: "map_of x ''token'' = Some (JStr token)"
    and uniq: "\<forall>y\<in>set (list_objs s1 (sessions d)).
                 map_of y ''token'' = Some (JStr token) \<longrightarrow> y = x"
  shows "fst (verify_token e token s) = Inr None
    \<and> (token' \<noteq> [] \<and> writable s \<longrightarrow>
         map_option sessions (stored (snd (verify_token e token' s)))
           = Some (filter (session_live e) (list_objs s1 (sessions d)))
         \<and> x \<notin> set (filter (session_live e) (list_objs s1 (sessions d))))"
proof -
  let ?ss = "list_objs s1 (sessions d)"
  have dead: "\<not> session_live e x"
    using created by (simp add: session_live_def)
  have nomatch: "\<forall>y\<in>set ?ss. session_live e y \<longrightarrow> map_of y ''token'' \<noteq> Some (JStr token)"
    using uniq dead by auto
  have first: "fst (verify_token e token s) = Inr None"
  proof (cases "token = []")
    case True
    then show ?thesis by (simp add: verify_token_def)
  next
    case False
    obtain act usr us
      where f: "fold (session_step e token) ?ss ([], None, list_objs s1 (users d)) = (act, usr, us)"
      by (cases "fold (session_step e token) ?ss ([], None, list_objs s1 (users d))") auto
    have "usr = None"
      using session_step_no_match [OF nomatch, of "[]" None "list_objs s1 (users d)"] f by simp
    then show ?thesis
      using False load f by (simp add: verify_token_def Let_def split: prod.splits)
  qed
  have second: "map_option sessions (stored (snd (verify_token e token' s)))
                  = Some (filter (session_live e) ?ss)"
    if t: "token' \<noteq> []" and w: "writable s"
  proof -
    obtain act usr us
      where f: "fold (session_step e token') ?ss ([], None, list_objs s1 (users d)) = (act, usr, us)"
      by (cases "fold (session_step e token') ?ss ([], None, list_objs s1 (users d))") auto
    have act: "act = filter (session_live e) ?ss"
      using session_step_active [of e token' ?ss "[]" None "list_objs s1 (users d)"] f by simp
    have "length (filter (session_live e) ?ss) < length ?ss"
      using x dead by (meson length_filter_less)
    then have ne: "length act \<noteq> length ?ss" using act by simp
    have w1: "writable s1"
      using load_db_writable(1) [of "frames e" e s] load w by simp
    show ?thesis
      using t w1 load f ne act
      by (simp add: verify_token_def Let_def new_list_def save_db_def dump_def stored_def
          split: prod.splits)
  qed
  show ?thesis using first second dead by simp
qed

theorem verify_token_expired_session_witness:
  "fst (verify_token example_env ''token-old'' stale_state) = Inr None
   \<and> map_option sessions (stored (snd (verify_token example_env ''token-u1'' stale_state)))
       = Some [session_of ''token-u1'' ''u1'' ''2024-02-20T00:00:00'',
               session_of ''token-a0'' ''a0'' ''2024-02-20T00:00:00'']
   \<and> old_session \<notin> set [session_of ''token-u1'' ''u1'' ''2024-02-20T00:00:00'',
                           session_of ''token-a0'' ''a0'' ''2024-02-20T00:00:00'']"
proof -
  have ss: "list_objs stale_state (sessions example_db) = old_session # sessions example_doc"
    by (simp add: stale_state_def example_db_def)
  have x: "old_session \<in> set (list_objs stale_state (sessions example_db))"
    by (simp add: ss)
  have c: "map_of old_session ''created'' = Some (JStr ''2024-01-01T00:00:00'')"
    by (simp add: old_session_def session_of_def)
  have t: "fromisoformat example_env ''2024-01-01T00:00:00'' = Some 0"
    by (simp add: example_env_def example_iso_def)
  have age: "thirty_days \<le> now example_env - 0"
    by (simp add: thirty_days_def example_env_def)
  have tok: "map_of old_session ''token'' = Some (JStr ''token-old'')"
    by (simp add: old_session_def session_of_def)
  have uniq: "\<forall>y\<in>set (list_objs stale_state (sessions example_db)).
                map_of y ''token'' = Some (JStr ''token-old'') \<longrightarrow> y = old_session"
    by (simp add: ss example_doc_def session_of_def)
  have live: "filter (session_live example_env) (list_objs stale_state (sessions example_db))
                = [session_of ''token-u1'' ''u1'' ''2024-02-20T00:00:00'',
                   session_of ''token-a0'' ''a0'' ''2024-02-20T00:00:00'']"
    by (simp add: ss example_doc_def old_session_def session_of_def session_live_def
        example_env_def example_iso_def thirty_days_def)
  have w: "''token-u1'' \<noteq> [] \<and> writable stale_state"
    by (simp add: stale_state_def example_state_def)
  show ?thesis
    using verify_token_expired_session [OF stale_load x c t age tok uniq, of "''token-u1''"] w live
    by simp
qed

section \<open>Evaluating the example\<close>

lemma pair_fst_snd: "fst p = a \<Longrightarrow> p = (a, snd p)"
  by (cases p) simp

lemma example_verify_u1:
  "fst (verify_token example_env ''token-u1'' example_state) = Inr (Some (stamped plain_user))"
  by code_simp

lemma example_verify_a0:
  "fst (verify_token example_env ''token-a0'' example_state) = Inr (Some (stamped admin_user))"
  by code_simp

lemma example_reload_u1:
  "fst (load_db (frames example_env) example_env (snd (verify_token example_env ''token-u1'' example_state)))
     = Inr example_db"
  "list_objs (snd (load_db (frames example_env) example_env
      (snd (verify_token example_env ''token-u1'' example_state)))) (orders example_db) = [order_o1, order_o2]"
  by code_simp+

lemma example_reload_a0:
  "fst (load_db (frames example_env) example_env (snd (verify_token example_env ''token-a0'' example_state)))
     = Inr example_db"
  "list_objs (snd (load_db (frames example_env) example_env
      (snd (verify_token example_env ''token-a0'' example_state)))) (orders example_db) = [order_o1, order_o2]"
  by code_simp+


section \<open>Settings are read without a token\<close>

text \<open>
  C10. \<^verbatim>\<open>get_setting\<close> takes no token and never answers \<^verbatim>\<open>Unauthorized\<close>: it answers
  with the stored value of the key, else with the default of \<^verbatim>\<open>kgz_rate\<close>,
  \<^verbatim>\<open>company_name\<close> or \<^verbatim>\<open>company_phone\<close>, else with \<^verbatim>\<open>NotFound\<close>.
  \<^verbatim>\<open>set_setting\<close> answers \<^verbatim>\<open>Unauthorized\<close> when \<^verbatim>\<open>verify_token\<close> resolves no user.
\<close>

theorem get_setting_needs_no_token:
  "fst (get_setting e key s) \<noteq> Unauthorized
   \<and> (\<forall>d s1. load_db (frames e) e s = (Inr d, s1) \<longrightarrow>
        fst (get_setting e key s) =
          (case map_of (dict_objs s1 (settings d)) key of
             Some v \<Rightarrow> Ok v
           | None \<Rightarrow>
               if key = ''kgz_rate'' then Ok (JFloat (177 / 2))
               else if key = ''company_name'' then Ok (JStr ''Cargo Management System'')
               else if key = ''company_phone'' then Ok (JStr ''+996 XXX XXX XXX'')
               else NotFound))
   \<and> (\<forall>s1. verify_token e token s = (Inr None, s1) \<longrightarrow>
        set_setting e token key' data s = (Unauthorized, s1))"
  by (auto simp add: get_setting_def set_setting_def default_settings_def no_user_def
      split: prod.splits sum.splits option.splits)

lemma example_settings: "dict_objs example_state (settings example_db) = [(''kgz_rate'', JInt 90)]"
  by (simp add: example_state_def example_db_def example_doc_def)

theorem get_setting_needs_no_token_witness:
  "fst (get_setting example_env ''kgz_rate'' example_state) = Ok (JInt 90)
   \<and> fst (get_setting example_env ''company_name'' example_state) = Ok (JStr ''Cargo Management System'')
   \<and> fst (get_setting example_env ''colour'' example_state) = NotFound
   \<and> set_setting example_env [] ''kgz_rate'' [(''value'', JInt 1)] example_state
       = (Unauthorized, example_state)"
proof -
  have v: "verify_token example_env [] example_state = (Inr None, example_state)"
    by (simp add: verify_token_def)
  show ?thesis
    using get_setting_needs_no_token [of example_env "''kgz_rate''" example_state "[]" "''kgz_rate''" "[(''value'', JInt 1)]"]
      get_setting_needs_no_token [of example_env "''company_name''" example_state "[]" "''kgz_rate''" "[(''value'', JInt 1)]"]
      get_setting_needs_no_token [of example_env "''colour''" example_state "[]" "''kgz_rate''" "[(''value'', JInt 1)]"]
      v
    by (simp add: example_settings)
qed

section \<open>Dicts, lists and the first hit of a loop\<close>

lemma map_of_setitem [simp]: "map_of (setitem d k v) k' = (if k' = k then Some v else map_of d k')"
  by (simp add: setitem_def update_conv')

lemma get_or_setitem [simp]: "get_or (setitem d k v) k' w = (if k' = k then v else get_or d k' w)"
  by (simp add: get_or_def)







section \<open>What the cache shares with the caller\<close>

text \<open>
  C6. When \<^verbatim>\<open>load_db\<close> answers from the cache, the dict it returns names the list
  objects of the cache. A caller that changes the list of orders in place, as
  \<^verbatim>\<open>db['orders'].append(...)\<close> does, changes the cache: the next \<^verbatim>\<open>load_db\<close> returns
  the changed list although nothing was saved. The handlers do so: \<^verbatim>\<open>verify_token\<close>
  stamps a user in the cache without saving, and an \<^verbatim>\<open>update_order\<close> that fails with
  status 500 leaves its half-applied patch in the cache, from where \<^verbatim>\<open>get_orders\<close>
  serves it.
\<close>

theorem load_db_cache_shares_lists:
  assumes "cache_fresh s" and "0 < n" and "db_cache s = Some d"
  shows "load_db n e s = (Inr d, s)
    \<and> load_db n e (set_orders d ords s) = (Inr d, set_orders d ords s)
    \<and> orders (dump (set_orders d ords s) d) = ords"
  using assms by (simp add: load_db_pos cache_fresh_def set_orders_def dump_def)

theorem load_db_cache_shares_lists_witness:
  "load_db 900 example_env example_state = (Inr example_db, example_state)
   \<and> fst (load_db 900 example_env (set_orders example_db [order_o1, order_o2, order_o1] example_state))
       = Inr example_db
   \<and> orders (dump (set_orders example_db [order_o1, order_o2, order_o1] example_state) example_db)
       = [order_o1, order_o2, order_o1]
   \<and> orders (dump example_state example_db) = [order_o1, order_o2]
   \<and> map_option orders (stored (set_orders example_db [order_o1, order_o2, order_o1] example_state))
       = Some [order_o1, order_o2]
   \<and> list_objs (snd (verify_token example_env ''token-u1'' example_state)) (users example_db)
       = [admin_user, stamped plain_user]
   \<and> map_option users (stored (snd (verify_token example_env ''token-u1'' example_state)))
       = Some [admin_user, plain_user]
   \<and> fst (update_order example_env ''token-u1'' ''o1'' bad_patch example_state)
       = ServerError TypeError
   \<and> map_option orders
        (stored (snd (update_order example_env ''token-u1'' ''o1'' bad_patch example_state)))
       = Some [order_o1, order_o2]
   \<and> fst (get_orders example_env ''token-u1''
            (snd (update_order example_env ''token-u1'' ''o1'' bad_patch example_state)))
       = Ok \<lparr>reply_orders = [half_patched], reply_total = 1,
             reply_lastSync = JStr ''2024-02-20T00:00:00''\<rparr>"
proof -
  have c: "cache_fresh example_state" "db_cache example_state = Some example_db"
    by (simp_all add: cache_fresh_def example_state_def)
  have n: "(0::nat) < 900" by simp
  have v: "list_objs (snd (verify_token example_env ''token-u1'' example_state)) (users example_db)
       = [admin_user, stamped plain_user]"
    "map_option users (stored (snd (verify_token example_env ''token-u1'' example_state)))
       = Some [admin_user, plain_user]"
    by code_simp+
  have u: "fst (update_order example_env ''token-u1'' ''o1'' bad_patch example_state)
       = ServerError TypeError"
    "map_option orders
        (stored (snd (update_order example_env ''token-u1'' ''o1'' bad_patch example_state)))
       = Some [order_o1, order_o2]"
    "fst (get_orders example_env ''token-u1''
            (snd (update_order example_env ''token-u1'' ''o1'' bad_patch example_state)))
       = Ok \<lparr>reply_orders = [half_patched], reply_total = 1,
             reply_lastSync = JStr ''2024-02-20T00:00:00''\<rparr>"
    by code_simp+
  have l: "load_db 900 example_env example_state = (Inr example_db, example_state)
   \<and> fst (load_db 900 example_env (set_orders example_db [order_o1, order_o2, order_o1] example_state))
       = Inr example_db
   \<and> orders (dump (set_orders example_db [order_o1, order_o2, order_o1] example_state) example_db)
       = [order_o1, order_o2, order_o1]
   \<and> orders (dump example_state example_db) = [order_o1, order_o2]
   \<and> map_option orders (stored (set_orders example_db [order_o1, order_o2, order_o1] example_state))
       = Some [order_o1, order_o2]"
    using load_db_cache_shares_lists [OF c(1) n c(2), of example_env "[order_o1, order_o2, order_o1]"]
    by (simp add: dump_def stored_def set_orders_def example_state_def example_db_def example_doc_def)
  show ?thesis
    using l v u by simp
qed


section \<open>The version counter of an order\<close>











section \<open>The cache between two requests\<close>






lemma serves_load:
  "serves s a ords \<Longrightarrow> 0 < n \<Longrightarrow>
     \<exists>d. load_db n e s = (Inr d, s) \<and> db_cache s = Some d \<and> orders d = a \<and> users d \<noteq> a
         \<and> a < next_addr s"
  by (auto simp add: serves_def load_db_pos)

lemma verify_token_serves:
  assumes "serves s a ords" and "0 < frames e"
  shows "serves (snd (verify_token e token s)) a ords"
proof (cases "token = []")
  case True
  then show ?thesis using assms by (simp add: verify_token_def)
next
  case False
  obtain d where d: "load_db (frames e) e s = (Inr d, s)" "db_cache s = Some d" "orders d = a"
    "users d \<noteq> a" "a < next_addr s"
    using serves_load [OF assms] by blast
  have s: "cache_fresh s" "writable s" "list_objs s a = ords"
    using assms(1) by (simp_all add: serves_def)
  show ?thesis
    using False d s
    by (auto simp add: verify_token_def Let_def new_list_def save_db_def serves_def cache_fresh_def
        split: prod.splits)
qed


lemma verify_token_writable: "writable (snd (verify_token e token s)) = writable s"
proof (cases "token = []")
  case True
  then show ?thesis by (simp add: verify_token_def)
next
  case False
  obtain r s1 where l: "load_db (frames e) e s = (r, s1)"
    by (cases "load_db (frames e) e s") auto
  have "writable s1 = writable s"
    using load_db_writable(1) [of "frames e" e s] l by simp
  then show ?thesis
    using False l
    by (cases r) (auto simp add: verify_token_def Let_def new_list_def save_db_def split: prod.splits)
qed




section \<open>Uploading the same file twice\<close>












section \<open>The merge map\<close>

lemma py_eq_hashable_rev: "py_eq a b \<Longrightarrow> hashable b \<Longrightarrow> hashable a"
  by (cases a; cases b) auto

lemma py_eq_left: "hashable a \<Longrightarrow> py_eq a b \<Longrightarrow> py_eq a c = py_eq b c"
  using py_eq_sym py_eq_trans py_eq_hashable by blast

lemma py_eq_right: "hashable a \<Longrightarrow> py_eq a b \<Longrightarrow> py_eq c a = py_eq c b"
  by (metis py_eq_hashable py_eq_hashable_rev py_eq_sym py_eq_trans)

lemma mm_get_cong:
  "\<forall>kv\<in>set m. hashable (fst kv) \<Longrightarrow> hashable a \<Longrightarrow> py_eq a b \<Longrightarrow> mm_get a m = mm_get b m"
  by (induction m) (auto simp add: py_eq_right)

lemma mm_get_mm_set:
  assumes "\<forall>kv\<in>set m. hashable (fst kv)" "hashable k'"
  shows "mm_get k (mm_set k' v m) = (if py_eq k' k then Some v else mm_get k m)"
  using assms
proof (induction m)
  case Nil
  then show ?case by simp
next
  case (Cons kv m)
  show ?case
  proof (cases "py_eq (fst kv) k'")
    case True
    have "py_eq (fst kv) k = py_eq k' k"
      using True Cons.prems by (simp add: py_eq_left)
    then show ?thesis using True by simp
  next
    case False
    have "\<not> (py_eq (fst kv) k \<and> py_eq k' k)"
      using False Cons.prems by (metis py_eq_right py_eq_sym py_eq_hashable list.set_intros(1))
    then show ?thesis using False Cons by auto
  qed
qed

lemma keyed_mm_set:
  assumes "keyed m" "hashable k" "id_is k v"
  shows "keyed (mm_set k v m)"
  using assms
proof (induction m)
  case Nil
  then show ?case by (simp add: keyed_def)
next
  case (Cons kv m)
  show ?case
  proof (cases "py_eq (fst kv) k")
    case True
    have h: "hashable (fst kv)" using Cons.prems(1) by (simp add: keyed_def)
    obtain i where i: "map_of v ''id'' = Some i" "py_eq i k"
      using Cons.prems(3) by (auto simp add: id_is_def split: option.splits)
    have "py_eq i (fst kv)"
      using True h i(2) Cons.prems(2) by (metis py_eq_right py_eq_sym)
    then have "id_is (fst kv) v" using i(1) by (simp add: id_is_def)
    then show ?thesis using True Cons.prems by (simp add: keyed_def)
  next
    case False
    have "keyed m" using Cons.prems(1) by (simp add: keyed_def)
    then have "keyed (mm_set k v m)" using Cons.IH Cons.prems by simp
    then show ?thesis using False Cons.prems(1) by (simp add: keyed_def)
  qed
qed

lemma unique_keys_mm_set:
  assumes "unique_keys m" "\<forall>kv\<in>set m. hashable (fst kv)" "hashable k"
  shows "unique_keys (mm_set k v m)"
  using assms
proof (induction m)
  case Nil
  then show ?case by simp
next
  case (Cons kv m)
  show ?case
  proof (cases "py_eq (fst kv) k")
    case True
    then show ?thesis using Cons.prems by simp
  next
    case False
    have "mm_get (fst kv) (mm_set k v m) = mm_get (fst kv) m"
      using False Cons.prems by (simp add: mm_get_mm_set) (metis py_eq_sym)
    then show ?thesis using False Cons by simp
  qed
qed

lemma id_is_cong: "hashable a \<Longrightarrow> py_eq a b \<Longrightarrow> id_is a x = id_is b x"
  by (auto simp add: id_is_def py_eq_right split: option.splits)

lemma filter_id_is:
  assumes "keyed m" "unique_keys m" "hashable k"
  shows "filter (id_is k) (map snd m) = (case mm_get k m of None \<Rightarrow> [] | Some v \<Rightarrow> [v])"
  using assms
proof (induction m)
  case Nil
  then show ?case by simp
next
  case (Cons kv m)
  have h: "hashable (fst kv)" "id_is (fst kv) (snd kv)" "keyed m"
    "\<forall>kv\<in>set m. hashable (fst kv)"
    using Cons.prems(1) by (simp_all add: keyed_def)
  have IH: "filter (id_is k) (map snd m) = (case mm_get k m of None \<Rightarrow> [] | Some v \<Rightarrow> [v])"
    using Cons h by simp
  show ?case
  proof (cases "py_eq (fst kv) k")
    case True
    have "id_is k (snd kv)" using h(1,2) True id_is_cong by blast
    moreover have "mm_get k m = None"
      using mm_get_cong [OF h(4) h(1) True] Cons.prems(2) by simp
    ultimately show ?thesis using True IH by simp
  next
    case False
    have "\<not> id_is k (snd kv)"
    proof
      assume a: "id_is k (snd kv)"
      obtain i where i: "map_of (snd kv) ''id'' = Some i" "py_eq i k" "py_eq i (fst kv)"
        using a h(2) by (auto simp add: id_is_def split: option.splits)
      have "hashable i" using i(2) Cons.prems(3) by (rule py_eq_hashable_rev)
      then have "py_eq (fst kv) k" using i(2,3) by (metis py_eq_left py_eq_sym)
      then show False using False by simp
    qed
    then show ?thesis using False IH by simp
  qed
qed


lemma keyed_keys: "keyed m \<Longrightarrow> \<forall>kv\<in>set m. hashable (fst kv)"
  by (simp add: keyed_def)

lemma seed_inv:
  "seed xs m = Inr m' \<Longrightarrow> keyed m \<Longrightarrow> unique_keys m \<Longrightarrow> keyed m' \<and> unique_keys m'"
proof (induction xs arbitrary: m)
  case Nil
  then show ?case by simp
next
  case (Cons x xs)
  obtain k where k: "map_of x ''id'' = Some k" "hashable k" "seed xs (mm_set k x m) = Inr m'"
    using Cons.prems(1) by (auto simp add: getitem_def split: option.splits if_splits)
  have "id_is k x" using k(1,2) by (simp add: id_is_def py_eq_refl)
  then have "keyed (mm_set k x m)" "unique_keys (mm_set k x m)"
    using Cons.prems(2,3) k(2) by (simp_all add: keyed_mm_set unique_keys_mm_set keyed_keys)
  then show ?case using Cons.IH [OF k(3)] by simp
qed

lemma seed_get:
  "seed xs m = Inr m' \<Longrightarrow> keyed m \<Longrightarrow> hashable k \<Longrightarrow>
     mm_get k m' = (case filter (id_is k) xs of [] \<Rightarrow> mm_get k m | y # ys \<Rightarrow> Some (last (y # ys)))"
proof (induction xs arbitrary: m)
  case Nil
  then show ?case by simp
next
  case (Cons x xs)
  obtain kx where kx: "map_of x ''id'' = Some kx" "hashable kx" "seed xs (mm_set kx x m) = Inr m'"
    using Cons.prems(1) by (auto simp add: getitem_def split: option.splits if_splits)
  have idx: "id_is kx x" using kx(1,2) by (simp add: id_is_def py_eq_refl)
  have kd: "keyed (mm_set kx x m)"
    using Cons.prems(2) kx(2) idx by (simp add: keyed_mm_set)
  have g: "mm_get k (mm_set kx x m) = (if py_eq kx k then Some x else mm_get k m)"
    using Cons.prems(2) kx(2) by (simp add: mm_get_mm_set keyed_keys)
  have p: "id_is k x = py_eq kx k" using kx(1) by (simp add: id_is_def)
  show ?case
    using Cons.IH [OF kx(3) kd Cons.prems(3)] g p
    by (auto split: list.splits)
qed

lemma merge_append:
  "merge e user (xs @ ys) m s =
     (case merge e user xs m s of
        (Inl err, s1) \<Rightarrow> (Inl err, s1)
      | (Inr m1, s1) \<Rightarrow> merge e user ys m1 s1)"
proof (induction xs arbitrary: m s)
  case Nil
  then show ?case by simp
next
  case (Cons c cs)
  show ?case
  proof (cases "truthy (get_or c ''id'' JNull)")
    case False
    obtain u s1 where f: "fresh_uuid e s = (u, s1)" by (cases "fresh_uuid e s") auto
    show ?thesis
      using False f Cons.IH by (simp split: sum.splits)
  next
    case True
    show ?thesis
    proof (cases "hashable (get_or c ''id'' JNull)")
      case False
      then show ?thesis using True by simp
    next
      case h: True
      show ?thesis
      proof (cases "mm_get (get_or c ''id'' JNull) m")
        case None
        then show ?thesis using True h Cons.IH by (simp split: sum.splits)
      next
        case (Some sv)
        then show ?thesis using True h Cons.IH by (simp split: sum.splits bool.splits)
      qed
    qed
  qed
qed


lemma stamp_owner_id:
  "stamp_owner user x = Inr y \<Longrightarrow> map_of y ''id'' = map_of x ''id''"
  by (auto simp add: stamp_owner_def getitem_def split: option.splits)

lemma truthy_id: "truthy (get_or c ''id'' JNull) \<Longrightarrow> map_of c ''id'' = Some (get_or c ''id'' JNull)"
  by (auto simp add: get_or_def split: option.splits)

text \<open>One turn of the merge loop leaves the map as it is or assigns one key.\<close>

lemma merge_step:
  assumes "merge e user (c # cs) m s = (Inr m', s')"
  shows "(truthy (get_or c ''id'' JNull) \<and> hashable (get_or c ''id'' JNull)
            \<and> (\<exists>sv. mm_get (get_or c ''id'' JNull) m = Some sv
                  \<and> py_gt (get_or c ''syncVersion'' (JInt 0)) (get_or sv ''syncVersion'' (JInt 0))
                      = Inr False)
            \<and> merge e user cs m s = (Inr m', s'))
       \<or> (truthy (get_or c ''id'' JNull) \<and> hashable (get_or c ''id'' JNull)
            \<and> (\<exists>sv. mm_get (get_or c ''id'' JNull) m = Some sv
                  \<and> py_gt (get_or c ''syncVersion'' (JInt 0)) (get_or sv ''syncVersion'' (JInt 0))
                      = Inr True)
            \<and> merge e user cs (mm_set (get_or c ''id'' JNull) c m) s = (Inr m', s'))
       \<or> (truthy (get_or c ''id'' JNull) \<and> hashable (get_or c ''id'' JNull)
            \<and> mm_get (get_or c ''id'' JNull) m = None
            \<and> (\<exists>c1. stamp_owner user c = Inr c1
                  \<and> merge e user cs (mm_set (get_or c ''id'' JNull) c1 m) s = (Inr m', s')))
       \<or> (\<not> truthy (get_or c ''id'' JNull)
            \<and> (\<exists>c1. stamp_owner user (setitem c ''id'' (JStr (uuid4 e (uuid_count s)))) = Inr c1
                  \<and> merge e user cs
                       (mm_set (JStr (uuid4 e (uuid_count s))) (setitem c1 ''syncVersion'' (JInt 1)) m)
                       (s\<lparr>uuid_count := Suc (uuid_count s)\<rparr>) = (Inr m', s')))"
proof (cases "truthy (get_or c ''id'' JNull)")
  case False
  then show ?thesis
    using assms by (auto simp add: fresh_uuid_def split: sum.splits)
next
  case True
  show ?thesis
  proof (cases "hashable (get_or c ''id'' JNull)")
    case False
    then show ?thesis using True assms by simp
  next
    case h: True
    show ?thesis
    proof (cases "mm_get (get_or c ''id'' JNull) m")
      case None
      then show ?thesis using True h assms by (auto split: sum.splits)
    next
      case (Some sv)
      then show ?thesis using True h assms by (auto split: sum.splits bool.splits)
    qed
  qed
qed

lemma merge_uuid_count:
  "merge e user cs m s = (r, s') \<Longrightarrow> uuid_count s \<le> uuid_count s'"
proof (induction cs arbitrary: m s)
  case Nil
  then show ?case by simp
next
  case (Cons c cs)
  show ?case
  proof (cases "truthy (get_or c ''id'' JNull)")
    case False
    have "(r, s') = (Inl KeyError, s\<lparr>uuid_count := Suc (uuid_count s)\<rparr>)
          \<or> (\<exists>m1. merge e user cs m1 (s\<lparr>uuid_count := Suc (uuid_count s)\<rparr>) = (r, s'))"
      using False Cons.prems
      by (auto simp add: fresh_uuid_def stamp_owner_def getitem_def split: sum.splits option.splits)
    then show ?thesis using Cons.IH by fastforce
  next
    case True
    have "(s' = s) \<or> (\<exists>m1. merge e user cs m1 s = (r, s'))"
      using True Cons.prems
      by (auto split: sum.splits option.splits bool.splits if_splits)
    then show ?thesis using Cons.IH by fastforce
  qed
qed

lemma merge_inv:
  "merge e user cs m s = (Inr m', s') \<Longrightarrow> keyed m \<Longrightarrow> unique_keys m
     \<Longrightarrow> keyed m' \<and> unique_keys m'"
proof (induction cs arbitrary: m s)
  case Nil
  then show ?case by simp
next
  case (Cons c cs)
  let ?k = "get_or c ''id'' JNull"
  let ?u = "JStr (uuid4 e (uuid_count s))"
  have ks: "\<forall>kv\<in>set m. hashable (fst kv)" using Cons.prems(2) by (rule keyed_keys)
  have set_ok: "keyed (mm_set k v m) \<and> unique_keys (mm_set k v m)" if "hashable k" "id_is k v" for k v
    using that Cons.prems(2,3) ks by (simp add: keyed_mm_set unique_keys_mm_set)
  consider
      (same) "merge e user cs m s = (Inr m', s')"
    | (won) "truthy ?k" "hashable ?k" "merge e user cs (mm_set ?k c m) s = (Inr m', s')"
    | (adopted) c1 where "truthy ?k" "hashable ?k" "stamp_owner user c = Inr c1"
        "merge e user cs (mm_set ?k c1 m) s = (Inr m', s')"
    | (new) c1 where "stamp_owner user (setitem c ''id'' ?u) = Inr c1"
        "merge e user cs (mm_set ?u (setitem c1 ''syncVersion'' (JInt 1)) m)
           (s\<lparr>uuid_count := Suc (uuid_count s)\<rparr>) = (Inr m', s')"
    using merge_step [OF Cons.prems(1)] by blast
  then show ?case
  proof cases
    case same
    then show ?thesis using Cons.IH Cons.prems by blast
  next
    case won
    have "id_is ?k c" using truthy_id [OF won(1)] won(2) by (simp add: id_is_def py_eq_refl)
    then show ?thesis using Cons.IH [OF won(3)] set_ok won(2) by blast
  next
    case adopted
    have "map_of c1 ''id'' = Some ?k"
      using stamp_owner_id [OF adopted(3)] truthy_id [OF adopted(1)] by simp
    then have "id_is ?k c1" using adopted(2) by (simp add: id_is_def py_eq_refl)
    then show ?thesis using Cons.IH [OF adopted(4)] set_ok adopted(2) by blast
  next
    case new
    have "map_of c1 ''id'' = Some ?u"
      using stamp_owner_id [OF new(1)] by simp
    then have "id_is ?u (setitem c1 ''syncVersion'' (JInt 1))" by (simp add: id_is_def)
    then show ?thesis using Cons.IH [OF new(2)] set_ok [of ?u] by simp
  qed
qed

lemma merge_untouched:
  assumes "merge e user cs m s = (Inr m', s')" "keyed m" "hashable k"
    and "\<forall>c\<in>set cs. \<not> (truthy (get_or c ''id'' JNull) \<and> py_eq (get_or c ''id'' JNull) k)"
    and "\<forall>n\<ge>uuid_count s. k \<noteq> JStr (uuid4 e n)"
  shows "mm_get k m' = mm_get k m"
  using assms
proof (induction cs arbitrary: m s)
  case Nil
  then show ?case by simp
next
  case (Cons c cs)
  let ?k = "get_or c ''id'' JNull"
  let ?u = "JStr (uuid4 e (uuid_count s))"
  have ks: "\<forall>kv\<in>set m. hashable (fst kv)" using Cons.prems(2) by (rule keyed_keys)
  have rest: "\<forall>c\<in>set cs. \<not> (truthy (get_or c ''id'' JNull) \<and> py_eq (get_or c ''id'' JNull) k)"
    using Cons.prems(4) by simp
  consider
      (same) "merge e user cs m s = (Inr m', s')"
    | (won) "truthy ?k" "hashable ?k" "merge e user cs (mm_set ?k c m) s = (Inr m', s')"
    | (adopted) c1 where "truthy ?k" "hashable ?k" "stamp_owner user c = Inr c1"
        "merge e user cs (mm_set ?k c1 m) s = (Inr m', s')"
    | (new) c1 where "stamp_owner user (setitem c ''id'' ?u) = Inr c1"
        "merge e user cs (mm_set ?u (setitem c1 ''syncVersion'' (JInt 1)) m)
           (s\<lparr>uuid_count := Suc (uuid_count s)\<rparr>) = (Inr m', s')"
    using merge_step [OF Cons.prems(1)] by blast
  then show ?case
  proof cases
    case same
    then show ?thesis using Cons.IH [OF same Cons.prems(2,3) rest Cons.prems(5)] by simp
  next
    case won
    have np: "\<not> py_eq ?k k" using Cons.prems(4) won(1) by simp
    have "id_is ?k c" using truthy_id [OF won(1)] won(2) by (simp add: id_is_def py_eq_refl)
    then have kd: "keyed (mm_set ?k c m)" using Cons.prems(2) won(2) by (simp add: keyed_mm_set)
    have "mm_get k (mm_set ?k c m) = mm_get k m"
      using np ks won(2) by (simp add: mm_get_mm_set)
    then show ?thesis using Cons.IH [OF won(3) kd Cons.prems(3) rest Cons.prems(5)] by simp
  next
    case adopted
    have np: "\<not> py_eq ?k k" using Cons.prems(4) adopted(1) by simp
    have "map_of c1 ''id'' = Some ?k"
      using stamp_owner_id [OF adopted(3)] truthy_id [OF adopted(1)] by simp
    then have "id_is ?k c1" using adopted(2) by (simp add: id_is_def py_eq_refl)
    then have kd: "keyed (mm_set ?k c1 m)" using Cons.prems(2) adopted(2) by (simp add: keyed_mm_set)
    have "mm_get k (mm_set ?k c1 m) = mm_get k m"
      using np ks adopted(2) by (simp add: mm_get_mm_set)
    then show ?thesis using Cons.IH [OF adopted(4) kd Cons.prems(3) rest Cons.prems(5)] by simp
  next
    case new
    have np: "\<not> py_eq ?u k" using Cons.prems(5) by auto
    have "map_of c1 ''id'' = Some ?u"
      using stamp_owner_id [OF new(1)] by simp
    then have "id_is ?u (setitem c1 ''syncVersion'' (JInt 1))" by (simp add: id_is_def)
    then have kd: "keyed (mm_set ?u (setitem c1 ''syncVersion'' (JInt 1)) m)"
      using Cons.prems(2) by (simp add: keyed_mm_set)
    have later: "\<forall>n\<ge>uuid_count (s\<lparr>uuid_count := Suc (uuid_count s)\<rparr>). k \<noteq> JStr (uuid4 e n)"
      using Cons.prems(5) by simp
    have "mm_get k (mm_set ?u (setitem c1 ''syncVersion'' (JInt 1)) m) = mm_get k m"
      using np ks by (simp add: mm_get_mm_set)
    then show ?thesis using Cons.IH [OF new(2) kd Cons.prems(3) rest later] by simp
  qed
qed

lemma merge_one:
  assumes run: "merge e user (before @ c # after) m s = (Inr m', s')"
    and inv: "keyed m" "unique_keys m"
    and k: "hashable k" "truthy (get_or c ''id'' JNull)" "py_eq (get_or c ''id'' JNull) k"
    and sv: "mm_get k m = Some sv"
    and others: "\<forall>c'\<in>set before \<union> set after.
                   \<not> (truthy (get_or c' ''id'' JNull) \<and> py_eq (get_or c' ''id'' JNull) k)"
    and fresh: "\<forall>n\<ge>uuid_count s. k \<noteq> JStr (uuid4 e n)"
  shows "\<exists>b. py_gt (get_or c ''syncVersion'' (JInt 0)) (get_or sv ''syncVersion'' (JInt 0)) = Inr b
           \<and> mm_get k m' = Some (if b then c else sv)"
proof -
  let ?k = "get_or c ''id'' JNull"
  obtain m1 s1 where b: "merge e user before m s = (Inr m1, s1)"
      and a: "merge e user (c # after) m1 s1 = (Inr m', s')"
    using run by (auto simp add: merge_append split: prod.splits sum.splits)
  have inv1: "keyed m1" "unique_keys m1"
    using merge_inv [OF b inv] by simp_all
  have ks1: "\<forall>kv\<in>set m1. hashable (fst kv)" using inv1(1) by (rule keyed_keys)
  have g1: "mm_get k m1 = Some sv"
    using merge_untouched [OF b inv(1) k(1) _ fresh] others sv by simp
  have fresh1: "\<forall>n\<ge>uuid_count s1. k \<noteq> JStr (uuid4 e n)"
    using fresh merge_uuid_count [OF b] by auto
  have rest: "\<forall>c'\<in>set after. \<not> (truthy (get_or c' ''id'' JNull) \<and> py_eq (get_or c' ''id'' JNull) k)"
    using others by simp
  have hk: "hashable ?k" using k(3) k(1) by (rule py_eq_hashable_rev)
  have g1': "mm_get ?k m1 = Some sv"
    using mm_get_cong [OF ks1 hk k(3)] g1 by simp
  consider
      (same) "py_gt (get_or c ''syncVersion'' (JInt 0)) (get_or sv ''syncVersion'' (JInt 0)) = Inr False"
        "merge e user after m1 s1 = (Inr m', s')"
    | (won) "py_gt (get_or c ''syncVersion'' (JInt 0)) (get_or sv ''syncVersion'' (JInt 0)) = Inr True"
        "merge e user after (mm_set ?k c m1) s1 = (Inr m', s')"
    using merge_step [OF a] k(2) g1' by auto
  then show ?thesis
  proof cases
    case same
    have "mm_get k m' = mm_get k m1"
      using merge_untouched [OF same(2) inv1(1) k(1) rest fresh1] .
    then show ?thesis using same(1) g1 by (intro exI [of _ False]) simp
  next
    case won
    have "id_is ?k c" using truthy_id [OF k(2)] hk by (simp add: id_is_def py_eq_refl)
    then have kd: "keyed (mm_set ?k c m1)" using inv1(1) hk by (simp add: keyed_mm_set)
    have "mm_get k m' = mm_get k (mm_set ?k c m1)"
      using merge_untouched [OF won(2) kd k(1) rest fresh1] .
    also have "\<dots> = Some c"
      using ks1 hk k(3) by (simp add: mm_get_mm_set)
    finally show ?thesis using won(1) by (intro exI [of _ True]) simp
  qed
qed

text \<open>Where the values of the map come from.\<close>

lemma count_list_filter: "P x \<Longrightarrow> count_list (filter P xs) x = count_list xs x"
  by (induction xs) auto

lemma mm_set_values: "v' \<in> snd ` set (mm_set k v m) \<Longrightarrow> v' = v \<or> v' \<in> snd ` set m"
  by (induction m) (auto split: if_splits)

lemma seed_values:
  "seed xs m = Inr m' \<Longrightarrow> v \<in> snd ` set m' \<Longrightarrow> v \<in> snd ` set m \<or> v \<in> set xs"
proof (induction xs arbitrary: m)
  case Nil
  then show ?case by simp
next
  case (Cons x xs)
  obtain k where k: "seed xs (mm_set k x m) = Inr m'"
    using Cons.prems(1) by (auto simp add: getitem_def split: option.splits if_splits)
  have "v \<in> snd ` set (mm_set k x m) \<or> v \<in> set xs"
    using Cons.IH [OF k Cons.prems(2)] .
  then show ?case using mm_set_values [of v k x m] by auto
qed

lemma stamp_owner_userId:
  "stamp_owner user x = Inr y \<Longrightarrow> map_of user ''id'' = Some uid \<Longrightarrow> map_of y ''userId'' = Some uid"
  by (auto simp add: stamp_owner_def getitem_def split: option.splits)

lemma merge_values:
  assumes "merge e user cs m s = (Inr m', s')" "map_of user ''id'' = Some uid" "v \<in> snd ` set m'"
  shows "v \<in> snd ` set m \<or> v \<in> set cs \<or> map_of v ''userId'' = Some uid"
  using assms
proof (induction cs arbitrary: m s)
  case Nil
  then show ?case by simp
next
  case (Cons c cs)
  let ?k = "get_or c ''id'' JNull"
  let ?u = "JStr (uuid4 e (uuid_count s))"
  consider
      (same) "merge e user cs m s = (Inr m', s')"
    | (won) "merge e user cs (mm_set ?k c m) s = (Inr m', s')"
    | (adopted) c1 where "stamp_owner user c = Inr c1"
        "merge e user cs (mm_set ?k c1 m) s = (Inr m', s')"
    | (new) c1 where "stamp_owner user (setitem c ''id'' ?u) = Inr c1"
        "merge e user cs (mm_set ?u (setitem c1 ''syncVersion'' (JInt 1)) m)
           (s\<lparr>uuid_count := Suc (uuid_count s)\<rparr>) = (Inr m', s')"
    using merge_step [OF Cons.prems(1)] by blast
  then show ?case
  proof cases
    case same
    have "v \<in> snd ` set m \<or> v \<in> set cs \<or> map_of v ''userId'' = Some uid"
      using Cons.IH [OF same Cons.prems(2,3)] .
    then show ?thesis by auto
  next
    case won
    have "v \<in> snd ` set (mm_set ?k c m) \<or> v \<in> set cs \<or> map_of v ''userId'' = Some uid"
      using Cons.IH [OF won Cons.prems(2,3)] .
    moreover have "v = c \<or> v \<in> snd ` set m" if "v \<in> snd ` set (mm_set ?k c m)"
      using that by (rule mm_set_values)
    ultimately have "v = c \<or> v \<in> snd ` set m \<or> v \<in> set cs \<or> map_of v ''userId'' = Some uid"
      by blast
    then show ?thesis by auto
  next
    case adopted
    have u: "map_of v ''userId'' = Some uid" if "v = c1"
      using stamp_owner_userId [OF adopted(1) Cons.prems(2)] that by simp
    have "v \<in> snd ` set (mm_set ?k c1 m) \<or> v \<in> set cs \<or> map_of v ''userId'' = Some uid"
      using Cons.IH [OF adopted(2) Cons.prems(2,3)] .
    moreover have "v = c1 \<or> v \<in> snd ` set m" if "v \<in> snd ` set (mm_set ?k c1 m)"
      using that by (rule mm_set_values)
    ultimately have "v \<in> snd ` set m \<or> v \<in> set cs \<or> map_of v ''userId'' = Some uid"
      using u by blast
    then show ?thesis by auto
  next
    case new
    let ?n = "setitem c1 ''syncVersion'' (JInt 1)"
    have u: "map_of v ''userId'' = Some uid" if "v = ?n"
      using stamp_owner_userId [OF new(1) Cons.prems(2)] that by simp
    have "v \<in> snd ` set (mm_set ?u ?n m) \<or> v \<in> set cs \<or> map_of v ''userId'' = Some uid"
      using Cons.IH [OF new(2) Cons.prems(2,3)] .
    moreover have "v = ?n \<or> v \<in> snd ` set m" if "v \<in> snd ` set (mm_set ?u ?n m)"
      using that by (rule mm_set_values)
    ultimately have "v \<in> snd ` set m \<or> v \<in> set cs \<or> map_of v ''userId'' = Some uid"
      using u by blast
    then show ?thesis by auto
  qed
qed

lemma merge_state:
  "merge e user cs m s = (r, s') \<Longrightarrow> \<exists>n. s' = s\<lparr>uuid_count := n\<rparr>"
proof (induction cs arbitrary: m s)
  case Nil
  then have "s' = s\<lparr>uuid_count := uuid_count s\<rparr>" by simp
  then show ?case by blast
next
  case (Cons c cs)
  show ?case
  proof (cases "truthy (get_or c ''id'' JNull)")
    case False
    have "(r, s') = (Inl KeyError, s\<lparr>uuid_count := Suc (uuid_count s)\<rparr>)
          \<or> (\<exists>m1. merge e user cs m1 (s\<lparr>uuid_count := Suc (uuid_count s)\<rparr>) = (r, s'))"
      using False Cons.prems
      by (auto simp add: fresh_uuid_def stamp_owner_def getitem_def split: sum.splits option.splits)
    then show ?thesis using Cons.IH by fastforce
  next
    case True
    have "(s' = s) \<or> (\<exists>m1. merge e user cs m1 s = (r, s'))"
      using True Cons.prems
      by (auto split: sum.splits option.splits bool.splits if_splits)
    then show ?thesis
    proof
      assume "s' = s"
      then have "s' = s\<lparr>uuid_count := uuid_count s\<rparr>" by simp
      then show ?thesis by blast
    next
      assume "\<exists>m1. merge e user cs m1 s = (r, s')"
      then show ?thesis using Cons.IH by blast
    qed
  qed
qed

lemma keep_orders_others:
  "keep_orders user m xs = Inr kept \<Longrightarrow> map_of user ''id'' = Some uid \<Longrightarrow>
     filter (\<lambda>x. \<not> owned_by uid x) kept = filter (\<lambda>x. \<not> owned_by uid x) xs"
proof (induction xs arbitrary: kept)
  case Nil
  then show ?case by simp
next
  case (Cons x xs)
  obtain r where r: "keep_orders user m xs = Inr r"
    using Cons.prems by (auto simp add: getitem_def split: sum.splits if_splits option.splits)
  have "kept = x # r \<or> (owned_by uid x \<and> kept = r)"
    using Cons.prems r by (auto simp add: getitem_def owned_by_def split: if_splits option.splits)
  then show ?case using Cons.IH [OF r Cons.prems(2)] by auto
qed

lemma sync_data_as_Ok:
  assumes L: "load_db (frames e) e s = (Inr d, s1)"
    and R: "fst (sync_data_as e user client s) = Ok r"
  shows "\<exists>mine m0 m s2 kept.
           server_orders user (list_objs s1 (orders d)) = Inr mine
         \<and> seed mine [] = Inr m0
         \<and> merge e user client m0 s1 = (Inr m, s2)
         \<and> keep_orders user m (list_objs s1 (orders d)) = Inr kept
         \<and> reply_merged r = map snd m
         \<and> (writable s1 \<longrightarrow>
               map_option orders (stored (snd (sync_data_as e user client s)))
                 = Some (kept @ map snd m))"
proof -
  obtain mine where mine: "server_orders user (list_objs s1 (orders d)) = Inr mine"
    using L R by (auto simp add: sync_data_as_def split: sum.splits)
  obtain m0 where m0: "seed mine [] = Inr m0"
    using L R mine by (auto simp add: sync_data_as_def split: sum.splits)
  obtain q s2 where mg: "merge e user client m0 s1 = (q, s2)"
    by (cases "merge e user client m0 s1") auto
  obtain m where m: "q = Inr m"
    using L R mine m0 mg by (cases q) (auto simp add: sync_data_as_def)
  obtain n where s2: "s2 = s1\<lparr>uuid_count := n\<rparr>"
    using merge_state [OF mg] by blast
  obtain kept where kept: "keep_orders user m (list_objs s1 (orders d)) = Inr kept"
    using L R mine m0 mg m s2 by (auto simp add: sync_data_as_def split: sum.splits)
  have "reply_merged r = map snd m"
    using L R mine m0 mg m s2 kept
    by (auto simp add: sync_data_as_def Let_def new_list_def split: prod.splits)
  moreover have "map_option orders (stored (snd (sync_data_as e user client s)))
                 = Some (kept @ map snd m)" if "writable s1"
    using that L mine m0 mg m s2 kept
    by (auto simp add: sync_data_as_def Let_def new_list_def save_db_def stored_def dump_def
        split: prod.splits)
  ultimately show ?thesis using mine m0 mg m kept by blast
qed

lemma seed_hashable:
  "seed xs m = Inr m' \<Longrightarrow> x \<in> set xs \<Longrightarrow> \<exists>k. map_of x ''id'' = Some k \<and> hashable k"
proof (induction xs arbitrary: m)
  case Nil
  then show ?case by simp
next
  case (Cons y ys)
  obtain ky where ky: "map_of y ''id'' = Some ky" "hashable ky" "seed ys (mm_set ky y m) = Inr m'"
    using Cons.prems(1) by (auto simp add: getitem_def split: option.splits if_splits)
  show ?case
  proof (cases "x = y")
    case True
    then show ?thesis using ky by simp
  next
    case False
    then show ?thesis using Cons.IH [OF ky(3)] Cons.prems(2) by simp
  qed
qed

lemma seeded:
  assumes "seed mine [] = Inr m0" "sv \<in> set mine" "map_of sv ''id'' = Some k"
    and "\<forall>y\<in>set mine. id_is k y \<longrightarrow> y = sv"
  shows "keyed m0 \<and> unique_keys m0 \<and> hashable k \<and> mm_get k m0 = Some sv"
proof -
  have inv: "keyed m0" "unique_keys m0"
    using seed_inv [OF assms(1)] by (simp_all add: keyed_def)
  have hk: "hashable k"
    using seed_hashable [OF assms(1,2)] assms(3) by simp
  have "id_is k sv" using assms(3) hk by (simp add: id_is_def py_eq_refl)
  then have ne: "sv \<in> set (filter (id_is k) mine)" using assms(2) by simp
  then obtain y ys where f: "filter (id_is k) mine = y # ys"
    by (cases "filter (id_is k) mine") auto
  have "last (y # ys) \<in> set (filter (id_is k) mine)"
    using f by (metis last_in_set list.distinct(1))
  then have l: "last (y # ys) = sv" using assms(4) by simp
  have "mm_get k m0 = Some (last (y # ys))"
    using seed_get [OF assms(1) _ hk] f by (simp add: keyed_def)
  then show ?thesis using inv hk l by simp
qed

lemma sync_data_as_dominance:
  assumes L: "load_db (frames e) e s = (Inr d, s1)"
    and R: "fst (sync_data_as e user client s) = Ok r"
    and M: "server_orders user (list_objs s1 (orders d)) = Inr mine"
    and S: "sv \<in> set mine" "map_of sv ''id'' = Some k" "\<forall>y\<in>set mine. id_is k y \<longrightarrow> y = sv"
    and C: "client = before @ c # after" "truthy (get_or c ''id'' JNull)"
      "py_eq (get_or c ''id'' JNull) k"
    and O: "\<forall>c'\<in>set before \<union> set after.
              \<not> (truthy (get_or c' ''id'' JNull) \<and> py_eq (get_or c' ''id'' JNull) k)"
    and U: "\<forall>n\<ge>uuid_count s1. k \<noteq> JStr (uuid4 e n)"
  shows "\<exists>b. py_gt (get_or c ''syncVersion'' (JInt 0)) (get_or sv ''syncVersion'' (JInt 0)) = Inr b
           \<and> filter (id_is k) (reply_merged r) = [if b then c else sv]"
proof -
  obtain m0 m s2 where run: "seed mine [] = Inr m0" "merge e user client m0 s1 = (Inr m, s2)"
      "reply_merged r = map snd m"
    using sync_data_as_Ok [OF L R] M by auto
  have sd: "keyed m0" "unique_keys m0" "hashable k" "mm_get k m0 = Some sv"
    using seeded [OF run(1) S] by simp_all
  obtain b where b: "py_gt (get_or c ''syncVersion'' (JInt 0)) (get_or sv ''syncVersion'' (JInt 0)) = Inr b"
      "mm_get k m = Some (if b then c else sv)"
    using merge_one [OF run(2) [unfolded C(1)] sd(1,2,3) C(2,3) sd(4) O U] by blast
  have inv: "keyed m" "unique_keys m"
    using merge_inv [OF run(2) sd(1,2)] by simp_all
  have "filter (id_is k) (map snd m) = [if b then c else sv]"
    using filter_id_is [OF inv sd(3)] b(2) by simp
  then show ?thesis using b(1) run(3) by (intro exI [of _ b]) simp
qed

lemma sync_data_as_keeps_omitted:
  assumes L: "load_db (frames e) e s = (Inr d, s1)"
    and R: "fst (sync_data_as e user client s) = Ok r"
    and W: "writable s1"
    and N: "\<not> truthy (get_or user ''isAdmin'' JNull)" "map_of user ''id'' = Some uid"
    and S: "sv \<in> set (list_objs s1 (orders d))" "owned_by uid sv" "map_of sv ''id'' = Some k"
      "\<forall>y\<in>set (list_objs s1 (orders d)). owned_by uid y \<and> id_is k y \<longrightarrow> y = sv"
    and O: "\<forall>c\<in>set client. \<not> (truthy (get_or c ''id'' JNull) \<and> py_eq (get_or c ''id'' JNull) k)"
    and U: "\<forall>n\<ge>uuid_count s1. k \<noteq> JStr (uuid4 e n)"
  shows "filter (id_is k) (reply_merged r) = [sv]
    \<and> (\<exists>kept. map_option orders (stored (snd (sync_data_as e user client s)))
                  = Some (kept @ reply_merged r))"
proof -
  let ?all = "list_objs s1 (orders d)"
  have ne: "?all \<noteq> []" using S(1) by auto
  have M: "server_orders user ?all = Inr (filter (owned_by uid) ?all)"
    using N ne by (simp add: server_orders_def own_orders_def getitem_def owned_by_def [abs_def])
  obtain mine m0 m s2 kept where run0: "server_orders user ?all = Inr mine"
      "seed mine [] = Inr m0"
      "merge e user client m0 s1 = (Inr m, s2)" "reply_merged r = map snd m"
      "writable s1 \<longrightarrow>
         map_option orders (stored (snd (sync_data_as e user client s))) = Some (kept @ map snd m)"
    using sync_data_as_Ok [OF L R] by blast
  have mine: "mine = filter (owned_by uid) ?all" using run0(1) M by simp
  have run: "seed (filter (owned_by uid) ?all) [] = Inr m0"
    using run0(2) mine by simp
  have st: "map_option orders (stored (snd (sync_data_as e user client s))) = Some (kept @ map snd m)"
    using run0(5) W by simp
  have in_mine: "sv \<in> set (filter (owned_by uid) ?all)" using S(1,2) by simp
  have only: "\<forall>y\<in>set (filter (owned_by uid) ?all). id_is k y \<longrightarrow> y = sv"
    using S(4) by simp
  have sd: "keyed m0" "unique_keys m0" "hashable k" "mm_get k m0 = Some sv"
    using seeded [OF run in_mine S(3) only] by simp_all
  have g: "mm_get k m = Some sv"
    using merge_untouched [OF run0(3) sd(1,3) O U] sd(4) by simp
  have inv: "keyed m" "unique_keys m"
    using merge_inv [OF run0(3) sd(1,2)] by simp_all
  have f: "filter (id_is k) (reply_merged r) = [sv]"
    using filter_id_is [OF inv sd(3)] g run0(4) by simp
  have "\<exists>kept. map_option orders (stored (snd (sync_data_as e user client s)))
                  = Some (kept @ reply_merged r)"
    using st run0(4) by (intro exI [of _ kept]) simp
  then show ?thesis using f by (rule conjI [rotated])
qed

lemma sync_data_as_others_kept:
  assumes L: "load_db (frames e) e s = (Inr d, s1)"
    and R: "fst (sync_data_as e user client s) = Ok r"
    and W: "writable s1"
    and N: "\<not> truthy (get_or user ''isAdmin'' JNull)" "map_of user ''id'' = Some uid" "hashable uid"
    and X: "\<not> owned_by uid x" "x \<notin> set client"
  shows "x \<notin> set (reply_merged r)
    \<and> (\<exists>ords. map_option orders (stored (snd (sync_data_as e user client s))) = Some ords
          \<and> count_list ords x = count_list (list_objs s1 (orders d)) x)"
proof -
  let ?all = "list_objs s1 (orders d)"
  obtain mine m0 m s2 kept where run: "server_orders user ?all = Inr mine"
      "seed mine [] = Inr m0" "merge e user client m0 s1 = (Inr m, s2)"
      "keep_orders user m ?all = Inr kept" "reply_merged r = map snd m"
      "map_option orders (stored (snd (sync_data_as e user client s))) = Some (kept @ map snd m)"
    using sync_data_as_Ok [OF L R] W by auto
  have mine: "mine = filter (owned_by uid) ?all"
    using run(1) N(1,2)
    by (auto simp add: server_orders_def own_orders_def getitem_def owned_by_def [abs_def]
        split: if_splits)
  have other: "v \<noteq> x" if v: "v \<in> snd ` set m" for v
  proof -
    consider "v \<in> snd ` set m0" | "v \<in> set client" | "map_of v ''userId'' = Some uid"
      using merge_values [OF run(3) N(2) v] by blast
    then show ?thesis
    proof cases
      case 1
      then have "v \<in> set mine" using seed_values [OF run(2), of v] by auto
      then have "owned_by uid v" using mine by simp
      then show ?thesis using X(1) by auto
    next
      case 2
      then show ?thesis using X(2) by auto
    next
      case 3
      then have "owned_by uid v" using N(3) by (simp add: owned_by_def get_or_def py_eq_refl)
      then show ?thesis using X(1) by auto
    qed
  qed
  have nm: "x \<notin> set (map snd m)" using other by auto
  have "count_list kept x = count_list (filter (\<lambda>x. \<not> owned_by uid x) kept) x"
    using X(1) by (simp add: count_list_filter)
  also have "\<dots> = count_list (filter (\<lambda>x. \<not> owned_by uid x) ?all) x"
    using keep_orders_others [OF run(4) N(2)] by simp
  also have "\<dots> = count_list ?all x"
    using X(1) by (simp add: count_list_filter)
  finally have "count_list (kept @ map snd m) x = count_list ?all x"
    using nm by (simp add: count_list_0_iff)
  then have "\<exists>ords. map_option orders (stored (snd (sync_data_as e user client s))) = Some ords
          \<and> count_list ords x = count_list ?all x"
    using run(6) by (intro exI [of _ "kept @ map snd m"]) simp
  moreover have "x \<notin> set (reply_merged r)" using nm run(5) by simp
  ultimately show ?thesis by (rule conjI [rotated])
qed

lemma sync_data_as_admin_duplicates:
  assumes L: "load_db (frames e) e s = (Inr d, s1)"
    and R: "fst (sync_data_as e user client s) = Ok r"
    and W: "writable s1"
    and A: "truthy (get_or user ''isAdmin'' JNull)" "map_of user ''id'' = Some uid"
    and X: "x \<in> set (list_objs s1 (orders d))" "\<not> owned_by uid x" "map_of x ''id'' = Some k"
      "\<forall>y\<in>set (list_objs s1 (orders d)). id_is k y \<longrightarrow> y = x"
    and O: "\<forall>c\<in>set client. \<not> (truthy (get_or c ''id'' JNull) \<and> py_eq (get_or c ''id'' JNull) k)"
    and U: "\<forall>n\<ge>uuid_count s1. k \<noteq> JStr (uuid4 e n)"
  shows "count_list (reply_merged r) x = 1
    \<and> (\<exists>ords. map_option orders (stored (snd (sync_data_as e user client s))) = Some ords
          \<and> count_list ords x = count_list (list_objs s1 (orders d)) x + 1)"
proof -
  let ?all = "list_objs s1 (orders d)"
  obtain mine m0 m s2 kept where run: "server_orders user ?all = Inr mine"
      "seed mine [] = Inr m0" "merge e user client m0 s1 = (Inr m, s2)"
      "keep_orders user m ?all = Inr kept" "reply_merged r = map snd m"
      "map_option orders (stored (snd (sync_data_as e user client s))) = Some (kept @ map snd m)"
    using sync_data_as_Ok [OF L R] W by auto
  have mine: "mine = ?all"
    using run(1) A(1) by (simp add: server_orders_def)
  have sd: "keyed m0" "unique_keys m0" "hashable k" "mm_get k m0 = Some x"
    using seeded [OF run(2) [unfolded mine] X(1,3,4)] by simp_all
  have g: "mm_get k m = Some x"
    using merge_untouched [OF run(3) sd(1,3) O U] sd(4) by simp
  have inv: "keyed m" "unique_keys m"
    using merge_inv [OF run(3) sd(1,2)] by simp_all
  have f: "filter (id_is k) (map snd m) = [x]"
    using filter_id_is [OF inv sd(3)] g by simp
  have idx: "id_is k x" using X(3) sd(3) by (simp add: id_is_def py_eq_refl)
  have "count_list (map snd m) x = count_list (filter (id_is k) (map snd m)) x"
    using idx by (simp add: count_list_filter)
  then have c1: "count_list (map snd m) x = 1" using f by simp
  have "count_list kept x = count_list (filter (\<lambda>x. \<not> owned_by uid x) kept) x"
    using X(2) by (simp add: count_list_filter)
  also have "\<dots> = count_list (filter (\<lambda>x. \<not> owned_by uid x) ?all) x"
    using keep_orders_others [OF run(4) A(2)] by simp
  also have "\<dots> = count_list ?all x"
    using X(2) by (simp add: count_list_filter)
  finally have "count_list (kept @ map snd m) x = count_list ?all x + 1"
    using c1 by simp
  then have "\<exists>ords. map_option orders (stored (snd (sync_data_as e user client s))) = Some ords
          \<and> count_list ords x = count_list ?all x + 1"
    using run(6) by (intro exI [of _ "kept @ map snd m"]) simp
  moreover have "count_list (reply_merged r) x = 1" using c1 run(5) by simp
  ultimately show ?thesis by (rule conjI [rotated])
qed

lemma sync_data_authenticated:
  "verify_token e token s0 = (Inr (Some user), s) \<Longrightarrow> map_of user ''id'' = Some uid \<Longrightarrow>
     sync_data e token client s0 = sync_data_as e user client s"
  by (auto simp add: sync_data_def no_user_def)

section \<open>What a synchronisation merges\<close>

lemma example_uuid_other: "\<forall>n\<ge>m. JStr ''o1'' \<noteq> JStr (uuid4 example_env n)"
  by (simp add: example_env_def)

lemma example_verified_load:
  "fst (load_db (frames example_env) example_env
          (snd (verify_token example_env ''token-u1'' example_state))) = Inr example_db"
  by code_simp

text \<open>
  C2. Let an authenticated user synchronise, and let exactly one of the client's orders,
  \<open>c\<close>, carry the id \<open>k\<close> of a server order \<open>sv\<close> that the merge map was seeded with (the
  only such server order, and \<open>k\<close> is none of the ids drawn for new orders). If the
  synchronisation succeeds, the versions of \<open>c\<close> and \<open>sv\<close> could be compared, and the one
  order with the id \<open>k\<close> among the merged orders is \<open>c\<close> when the version of \<open>c\<close> is
  greater than that of \<open>sv\<close>, and \<open>sv\<close> otherwise.
\<close>

theorem sync_version_dominance:
  assumes V: "verify_token e token s0 = (Inr (Some user), s)" "map_of user ''id'' = Some uid"
    and L: "load_db (frames e) e s = (Inr d, s1)"
    and R: "fst (sync_data e token client s0) = Ok r"
    and M: "server_orders user (list_objs s1 (orders d)) = Inr mine"
    and S: "sv \<in> set mine" "map_of sv ''id'' = Some k" "\<forall>y\<in>set mine. id_is k y \<longrightarrow> y = sv"
    and C: "client = before @ c # after" "truthy (get_or c ''id'' JNull)"
      "py_eq (get_or c ''id'' JNull) k"
    and O: "\<forall>c'\<in>set before \<union> set after.
              \<not> (truthy (get_or c' ''id'' JNull) \<and> py_eq (get_or c' ''id'' JNull) k)"
    and U: "\<forall>n\<ge>uuid_count s1. k \<noteq> JStr (uuid4 e n)"
  shows "\<exists>b. py_gt (get_or c ''syncVersion'' (JInt 0)) (get_or sv ''syncVersion'' (JInt 0)) = Inr b
           \<and> filter (id_is k) (reply_merged r) = [if b then c else sv]"
proof -
  have "fst (sync_data_as e user client s) = Ok r"
    using R sync_data_authenticated [OF V] by simp
  then show ?thesis
    by (rule sync_data_as_dominance [OF L _ M S C O U])
qed

theorem sync_version_dominance_witness:
  "fst (sync_data example_env ''token-u1'' [local_order, edit_v5] example_state)
     = Ok \<lparr>reply_merged = [edit_v5, local_order_synced], reply_serverTime = ''2024-03-01T00:00:00'',
           reply_syncVersion = JStr ''2024-03-01T00:00:00''\<rparr>
   \<and> filter (id_is (JStr ''o1'')) [edit_v5, local_order_synced] = [edit_v5]
   \<and> fst (sync_data example_env ''token-u1'' [edit_v1, local_order] example_state)
     = Ok \<lparr>reply_merged = [order_o1, local_order_synced], reply_serverTime = ''2024-03-01T00:00:00'',
           reply_syncVersion = JStr ''2024-03-01T00:00:00''\<rparr>
   \<and> filter (id_is (JStr ''o1'')) [order_o1, local_order_synced] = [order_o1]"
proof -
  let ?sa = "snd (verify_token example_env ''token-u1'' example_state)"
  let ?s1 = "snd (load_db (frames example_env) example_env ?sa)"
  have i: "map_of (stamped plain_user) ''id'' = Some (JStr ''u1'')"
    by (simp add: stamped_def plain_user_def)
  have r1: "fst (sync_data example_env ''token-u1'' [local_order, edit_v5] example_state)
     = Ok \<lparr>reply_merged = [edit_v5, local_order_synced], reply_serverTime = ''2024-03-01T00:00:00'',
           reply_syncVersion = JStr ''2024-03-01T00:00:00''\<rparr>"
    by code_simp
  have r2: "fst (sync_data example_env ''token-u1'' [edit_v1, local_order] example_state)
     = Ok \<lparr>reply_merged = [order_o1, local_order_synced], reply_serverTime = ''2024-03-01T00:00:00'',
           reply_syncVersion = JStr ''2024-03-01T00:00:00''\<rparr>"
    by code_simp
  have m: "server_orders (stamped plain_user) (list_objs ?s1 (orders example_db)) = Inr [order_o1]"
    by code_simp
  have s: "order_o1 \<in> set [order_o1]" "map_of order_o1 ''id'' = Some (JStr ''o1'')"
    "\<forall>y\<in>set [order_o1]. id_is (JStr ''o1'') y \<longrightarrow> y = order_o1"
    by (simp_all add: order_o1_def)
  have c1: "[local_order, edit_v5] = [local_order] @ edit_v5 # []"
    "truthy (get_or edit_v5 ''id'' JNull)" "py_eq (get_or edit_v5 ''id'' JNull) (JStr ''o1'')"
    "\<forall>c'\<in>set [local_order] \<union> set [].
        \<not> (truthy (get_or c' ''id'' JNull) \<and> py_eq (get_or c' ''id'' JNull) (JStr ''o1''))"
    by (simp_all add: edit_v5_def local_order_def get_or_def)
  have c2: "[edit_v1, local_order] = [] @ edit_v1 # [local_order]"
    "truthy (get_or edit_v1 ''id'' JNull)" "py_eq (get_or edit_v1 ''id'' JNull) (JStr ''o1'')"
    "\<forall>c'\<in>set [] \<union> set [local_order].
        \<not> (truthy (get_or c' ''id'' JNull) \<and> py_eq (get_or c' ''id'' JNull) (JStr ''o1''))"
    by (simp_all add: edit_v1_def local_order_def get_or_def)
  note t = sync_version_dominance [OF pair_fst_snd [OF example_verify_u1] i
      pair_fst_snd [OF example_verified_load] _ m s _ _ _ _ example_uuid_other]
  have f1: "filter (id_is (JStr ''o1'')) [edit_v5, local_order_synced] = [edit_v5]"
    by (simp add: id_is_def edit_v5_def local_order_synced_def)
  have f2: "filter (id_is (JStr ''o1'')) [order_o1, local_order_synced] = [order_o1]"
    by (simp add: id_is_def order_o1_def local_order_synced_def)
  show ?thesis
    using t [OF r1 c1] t [OF r2 c2] r1 r2 f1 f2 by simp
qed

text \<open>
  Two client orders with the id of \<open>o1\<close>, at the versions 5 and 7: the merged order is the
  second, not the first, although the first is newer than the server's version 2.
\<close>

theorem sync_version_dominance_counterexample:
  "fst (sync_data example_env ''token-u1'' [edit_v5, edit_v7] example_state)
     = Ok \<lparr>reply_merged = [edit_v7], reply_serverTime = ''2024-03-01T00:00:00'',
           reply_syncVersion = JStr ''2024-03-01T00:00:00''\<rparr>
   \<and> map_of edit_v5 ''id'' = map_of order_o1 ''id''
   \<and> py_gt (get_or edit_v5 ''syncVersion'' (JInt 0)) (get_or order_o1 ''syncVersion'' (JInt 0))
       = Inr True
   \<and> edit_v5 \<noteq> edit_v7
   \<and> list_objs example_state 1 = [order_o1, order_o2]"
  by code_simp


lemma writable_after_load:
  assumes "verify_token e token s0 = (r, s)" "load_db (frames e) e s = (q, s1)"
  shows "writable s1 = writable s0"
  using verify_token_writable [of e token s0] load_db_writable(1) [of "frames e" e s] assms by simp

text \<open>
  C3. Let a user who is no admin synchronise on a disk that takes the write, and let \<open>sv\<close>
  be an order of theirs on the server, the only one of theirs with its id \<open>k\<close>, an id that no
  client order carries and that is not drawn for a new order. If the synchronisation
  succeeds, \<open>sv\<close> is the one merged order with the id \<open>k\<close>, and the merged orders are the
  tail of the collection in the file: the order is kept.
\<close>

theorem sync_keeps_omitted_order:
  assumes V: "verify_token e token s0 = (Inr (Some user), s)"
    and L: "load_db (frames e) e s = (Inr d, s1)"
    and R: "fst (sync_data e token client s0) = Ok r"
    and W: "writable s0"
    and N: "\<not> truthy (get_or user ''isAdmin'' JNull)" "map_of user ''id'' = Some uid"
    and S: "sv \<in> set (list_objs s1 (orders d))" "owned_by uid sv" "map_of sv ''id'' = Some k"
      "\<forall>y\<in>set (list_objs s1 (orders d)). owned_by uid y \<and> id_is k y \<longrightarrow> y = sv"
    and O: "\<forall>c\<in>set client. \<not> (truthy (get_or c ''id'' JNull) \<and> py_eq (get_or c ''id'' JNull) k)"
    and U: "\<forall>n\<ge>uuid_count s1. k \<noteq> JStr (uuid4 e n)"
  shows "filter (id_is k) (reply_merged r) = [sv]
    \<and> (\<exists>kept. map_option orders (stored (snd (sync_data e token client s0)))
                  = Some (kept @ reply_merged r))"
proof -
  have a: "sync_data e token client s0 = sync_data_as e user client s"
    using sync_data_authenticated [OF V N(2)] .
  have r: "fst (sync_data_as e user client s) = Ok r"
    using R a by simp
  have w: "writable s1"
    using writable_after_load [OF V L] W by simp
  show ?thesis
    unfolding a by (rule sync_data_as_keeps_omitted [OF L r w N S O U])
qed

theorem sync_keeps_omitted_order_witness:
  "fst (sync_data example_env ''token-u1'' [local_order] example_state)
     = Ok \<lparr>reply_merged = [order_o1, local_order_synced], reply_serverTime = ''2024-03-01T00:00:00'',
           reply_syncVersion = JStr ''2024-03-01T00:00:00''\<rparr>
   \<and> filter (id_is (JStr ''o1'')) [order_o1, local_order_synced] = [order_o1]
   \<and> map_option orders (stored (snd (sync_data example_env ''token-u1'' [local_order] example_state)))
     = Some ([order_o2] @ [order_o1, local_order_synced])"
proof -
  let ?sa = "snd (verify_token example_env ''token-u1'' example_state)"
  let ?s1 = "snd (load_db (frames example_env) example_env ?sa)"
  have r: "fst (sync_data example_env ''token-u1'' [local_order] example_state)
     = Ok \<lparr>reply_merged = [order_o1, local_order_synced], reply_serverTime = ''2024-03-01T00:00:00'',
           reply_syncVersion = JStr ''2024-03-01T00:00:00''\<rparr>"
    by code_simp
  have p: "map_option orders (stored (snd (sync_data example_env ''token-u1'' [local_order] example_state)))
     = Some ([order_o2] @ [order_o1, local_order_synced])"
    by code_simp
  have w: "writable example_state" by (simp add: example_state_def)
  have n: "\<not> truthy (get_or (stamped plain_user) ''isAdmin'' JNull)"
    "map_of (stamped plain_user) ''id'' = Some (JStr ''u1'')"
    by (simp_all add: stamped_def plain_user_def get_or_def)
  have all: "list_objs ?s1 (orders example_db) = [order_o1, order_o2]"
    by code_simp
  have s: "order_o1 \<in> set (list_objs ?s1 (orders example_db))" "owned_by (JStr ''u1'') order_o1"
    "map_of order_o1 ''id'' = Some (JStr ''o1'')"
    "\<forall>y\<in>set (list_objs ?s1 (orders example_db)).
        owned_by (JStr ''u1'') y \<and> id_is (JStr ''o1'') y \<longrightarrow> y = order_o1"
    unfolding all by (simp_all add: order_o1_def order_o2_def owned_by_def id_is_def get_or_def)
  have o: "\<forall>c\<in>set [local_order].
      \<not> (truthy (get_or c ''id'' JNull) \<and> py_eq (get_or c ''id'' JNull) (JStr ''o1''))"
    by (simp add: local_order_def get_or_def)
  have f: "filter (id_is (JStr ''o1'')) [order_o1, local_order_synced] = [order_o1]"
    by (simp add: id_is_def order_o1_def local_order_synced_def)
  show ?thesis
    using sync_keeps_omitted_order [OF pair_fst_snd [OF example_verify_u1]
        pair_fst_snd [OF example_verified_load] r w n s o example_uuid_other] r p f
    by simp
qed

text \<open>
  The user \<open>u1\<close> synchronises with no orders at all: their order \<open>o1\<close> is still in the
  file.
\<close>

theorem sync_drops_omitted_order_counterexample:
  "fst (sync_data example_env ''token-u1'' [] example_state)
     = Ok \<lparr>reply_merged = [order_o1], reply_serverTime = ''2024-03-01T00:00:00'',
           reply_syncVersion = JStr ''2024-03-01T00:00:00''\<rparr>
   \<and> map_option orders (stored (snd (sync_data example_env ''token-u1'' [] example_state)))
     = Some [order_o2, order_o1]
   \<and> list_objs example_state 1 = [order_o1, order_o2]
   \<and> map_of order_o1 ''userId'' = Some (JStr ''u1'')
   \<and> map_of plain_user ''id'' = Some (JStr ''u1'')
   \<and> map_of plain_user ''isAdmin'' = Some (JBool False)"
  by code_simp

text \<open>
  C4. The scope of a synchronisation fails for an admin. Let an admin synchronise on a disk
  that takes the write, and let \<open>x\<close> be an order of another user on the server, the only
  server order with its id \<open>k\<close>, an id that no client order carries and that is not drawn
  for a new order. If the synchronisation succeeds, \<open>x\<close> is among the merged orders of
  the answer, once, and the collection in the file afterwards holds \<open>x\<close> once more often
  than the collection did before: the merge map was seeded with the order of the other
  user, and that order is written a second time. The comments of the handler announce
  that the old orders of the user are removed and the updated ones added; for an admin
  the orders added are those of everybody, and the orders removed are the admin's own.
\<close>

theorem sync_data_admin_duplicates:
  assumes V: "verify_token e token s0 = (Inr (Some user), s)"
    and L: "load_db (frames e) e s = (Inr d, s1)"
    and R: "fst (sync_data e token client s0) = Ok r"
    and W: "writable s0"
    and A: "truthy (get_or user ''isAdmin'' JNull)" "map_of user ''id'' = Some uid"
    and X: "x \<in> set (list_objs s1 (orders d))" "\<not> owned_by uid x" "map_of x ''id'' = Some k"
      "\<forall>y\<in>set (list_objs s1 (orders d)). id_is k y \<longrightarrow> y = x"
    and O: "\<forall>c\<in>set client. \<not> (truthy (get_or c ''id'' JNull) \<and> py_eq (get_or c ''id'' JNull) k)"
    and U: "\<forall>n\<ge>uuid_count s1. k \<noteq> JStr (uuid4 e n)"
  shows "count_list (reply_merged r) x = 1
    \<and> (\<exists>ords. map_option orders (stored (snd (sync_data e token client s0))) = Some ords
          \<and> count_list ords x = count_list (list_objs s1 (orders d)) x + 1)"
proof -
  have a: "sync_data e token client s0 = sync_data_as e user client s"
    using sync_data_authenticated [OF V A(2)] .
  have r: "fst (sync_data_as e user client s) = Ok r"
    using R a by simp
  have w: "writable s1"
    using writable_after_load [OF V L] W by simp
  show ?thesis
    unfolding a by (rule sync_data_as_admin_duplicates [OF L r w A X O U])
qed

theorem sync_data_admin_duplicates_witness:
  "fst (sync_data example_env ''token-a0'' [] example_state)
     = Ok \<lparr>reply_merged = [order_o1, order_o2], reply_serverTime = ''2024-03-01T00:00:00'',
           reply_syncVersion = JStr ''2024-03-01T00:00:00''\<rparr>
   \<and> map_option orders (stored (snd (sync_data example_env ''token-a0'' [] example_state)))
     = Some [order_o1, order_o2, order_o1, order_o2]
   \<and> count_list [order_o1, order_o2] order_o1 = 1
   \<and> count_list [order_o1, order_o2, order_o1, order_o2] order_o1 = 2"
proof -
  let ?sa = "snd (verify_token example_env ''token-a0'' example_state)"
  let ?s1 = "snd (load_db (frames example_env) example_env ?sa)"
  have r: "fst (sync_data example_env ''token-a0'' [] example_state)
     = Ok \<lparr>reply_merged = [order_o1, order_o2], reply_serverTime = ''2024-03-01T00:00:00'',
           reply_syncVersion = JStr ''2024-03-01T00:00:00''\<rparr>"
    by code_simp
  have p: "map_option orders (stored (snd (sync_data example_env ''token-a0'' [] example_state)))
     = Some [order_o1, order_o2, order_o1, order_o2]"
    by code_simp
  have w: "writable example_state" by (simp add: example_state_def)
  have a: "truthy (get_or (stamped admin_user) ''isAdmin'' JNull)"
    "map_of (stamped admin_user) ''id'' = Some (JStr ''a0'')"
    by (simp_all add: stamped_def admin_user_def get_or_def)
  have all: "list_objs ?s1 (orders example_db) = [order_o1, order_o2]"
    by code_simp
  have x: "order_o1 \<in> set (list_objs ?s1 (orders example_db))" "\<not> owned_by (JStr ''a0'') order_o1"
    "map_of order_o1 ''id'' = Some (JStr ''o1'')"
    "\<forall>y\<in>set (list_objs ?s1 (orders example_db)). id_is (JStr ''o1'') y \<longrightarrow> y = order_o1"
    unfolding all by (simp_all add: order_o1_def order_o2_def owned_by_def id_is_def get_or_def)
  have o: "\<forall>c\<in>set []. \<not> (truthy (get_or c ''id'' JNull) \<and> py_eq (get_or c ''id'' JNull) (JStr ''o1''))"
    by simp
  have c: "order_o1 \<noteq> order_o2" by (simp add: order_o1_def order_o2_def)
  show ?thesis
    using sync_data_admin_duplicates [OF pair_fst_snd [OF example_verify_a0]
        pair_fst_snd [OF example_reload_a0(1)] r w a x o example_uuid_other, unfolded all] r p c
    by simp
qed

text \<open>
  After that synchronisation of the admin, \<open>u1\<close> is listed their one order twice, and a
  second synchronisation of the admin leaves six orders in the file.
\<close>

lemma admin_sync_follow_up:
  "fst (get_orders example_env ''token-u1'' (snd (sync_data example_env ''token-a0'' [] example_state)))
     = Ok \<lparr>reply_orders = [order_o1, order_o1], reply_total = 2,
           reply_lastSync = JStr ''2024-03-01T00:00:00''\<rparr>
   \<and> map_option orders (stored (snd (sync_data example_env ''token-a0'' []
         (snd (sync_data example_env ''token-a0'' [] example_state)))))
     = Some [order_o1, order_o2, order_o1, order_o2, order_o1, order_o2]"
  by code_simp

text \<open>
  For a caller who is no admin the orders of the others do stay as they are: an order of
  another user, which the client does not send itself, is none of the merged orders and is
  in the file as often as before.
\<close>

lemma sync_data_others_kept:
  assumes V: "verify_token e token s0 = (Inr (Some user), s)"
    and L: "load_db (frames e) e s = (Inr d, s1)"
    and R: "fst (sync_data e token client s0) = Ok r"
    and W: "writable s0"
    and N: "\<not> truthy (get_or user ''isAdmin'' JNull)" "map_of user ''id'' = Some uid" "hashable uid"
    and X: "\<not> owned_by uid x" "x \<notin> set client"
  shows "x \<notin> set (reply_merged r)
    \<and> (\<exists>ords. map_option orders (stored (snd (sync_data e token client s0))) = Some ords
          \<and> count_list ords x = count_list (list_objs s1 (orders d)) x)"
proof -
  have a: "sync_data e token client s0 = sync_data_as e user client s"
    using sync_data_authenticated [OF V N(2)] .
  have r: "fst (sync_data_as e user client s) = Ok r"
    using R a by simp
  have w: "writable s1"
    using writable_after_load [OF V L] W by simp
  show ?thesis
    unfolding a by (rule sync_data_as_others_kept [OF L r w N X])
qed

text \<open>
  The order must not come from the client: an order sent under an id that the map holds,
  at a higher version, is stored as it is sent, with the owner it names, since the branch
  that replaces an order does not stamp the caller as the two other branches do. Here
  \<open>u1\<close> sends the id of \<open>o2\<close> and then a copy of \<open>o2\<close>.
\<close>

lemma sync_data_client_copy:
  "map_option orders (stored (snd (sync_data example_env ''token-u1'' [claimed_o2, order_o2] example_state)))
     = Some [order_o2, order_o1, order_o2]"
  by code_simp


section \<open>Listing orders\<close>

text \<open>
  C9. For a caller whom \<^verbatim>\<open>verify_token\<close> resolves, \<^verbatim>\<open>get_orders\<close> answers with the
  orders of the database it loads: all of them when the caller's \<^verbatim>\<open>isAdmin\<close> is true,
  and otherwise exactly those whose \<^verbatim>\<open>userId\<close> equals the caller's id, in their order.
  When the cache served the list \<open>ords\<close> before the request, these are the orders of the
  database it loads: the authentication has not touched them.
\<close>

theorem get_orders_ownership:
  assumes V: "verify_token e token s = (Inr (Some user), s1)"
    and I: "map_of user ''id'' = Some uid"
    and L: "load_db (frames e) e s1 = (Inr d, s2)"
  shows "fst (get_orders e token s) =
           Ok \<lparr>reply_orders =
                 (if truthy (get_or user ''isAdmin'' (JBool False)) then list_objs s2 (orders d)
                  else filter (owned_by uid) (list_objs s2 (orders d))),
               reply_total =
                 length (if truthy (get_or user ''isAdmin'' (JBool False)) then list_objs s2 (orders d)
                  else filter (owned_by uid) (list_objs s2 (orders d))),
               reply_lastSync = last_modified d\<rparr>
    \<and> (serves s a ords \<and> 0 < frames e \<longrightarrow> list_objs s2 (orders d) = ords)"
proof -
  from I have "user \<noteq> []" by auto
  then have nu: "\<not> no_user (Some user)" by (simp add: no_user_def)
  have reply: "fst (get_orders e token s) =
           Ok \<lparr>reply_orders =
                 (if truthy (get_or user ''isAdmin'' (JBool False)) then list_objs s2 (orders d)
                  else filter (owned_by uid) (list_objs s2 (orders d))),
               reply_total =
                 length (if truthy (get_or user ''isAdmin'' (JBool False)) then list_objs s2 (orders d)
                  else filter (owned_by uid) (list_objs s2 (orders d))),
               reply_lastSync = last_modified d\<rparr>"
    using V I L nu
    by (auto simp add: get_orders_def own_orders_def getitem_def owned_by_def [abs_def])
  have same: "list_objs s2 (orders d) = ords" if "serves s a ords" "0 < frames e"
  proof -
    have "serves s1 a ords"
      using verify_token_serves [OF that, of token] V by simp
    then show ?thesis
      using serves_load [of s1 a ords "frames e" e] that(2) L by (auto simp add: serves_def)
  qed
  show ?thesis using reply same by blast
qed

theorem get_orders_ownership_witness:
  "fst (get_orders example_env ''token-u1'' example_state)
     = Ok \<lparr>reply_orders = [order_o1], reply_total = 1, reply_lastSync = JStr ''2024-02-20T00:00:00''\<rparr>
   \<and> fst (get_orders example_env ''token-a0'' example_state)
     = Ok \<lparr>reply_orders = [order_o1, order_o2], reply_total = 2,
           reply_lastSync = JStr ''2024-02-20T00:00:00''\<rparr>
   \<and> serves example_state 1 [order_o1, order_o2]
   \<and> list_objs (snd (load_db (frames example_env) example_env
        (snd (verify_token example_env ''token-u1'' example_state)))) (orders example_db)
       = [order_o1, order_o2]"
proof -
  have u: "map_of (stamped plain_user) ''id'' = Some (JStr ''u1'')"
    by (simp add: stamped_def plain_user_def)
  have a: "map_of (stamped admin_user) ''id'' = Some (JStr ''a0'')"
    by (simp add: stamped_def admin_user_def)
  have sv: "serves example_state 1 [order_o1, order_o2]" "0 < frames example_env"
    by (simp_all add: serves_def cache_fresh_def example_state_def example_db_def example_doc_def
        example_env_def)
  note t1 = get_orders_ownership [OF pair_fst_snd [OF example_verify_u1] u
        pair_fst_snd [OF example_reload_u1(1)], of 1 "[order_o1, order_o2]"]
  have same: "list_objs (snd (load_db (frames example_env) example_env
        (snd (verify_token example_env ''token-u1'' example_state)))) (orders example_db)
       = [order_o1, order_o2]"
    using t1 sv by simp
  have 1: "fst (get_orders example_env ''token-u1'' example_state)
     = Ok \<lparr>reply_orders = [order_o1], reply_total = 1, reply_lastSync = JStr ''2024-02-20T00:00:00''\<rparr>"
    using t1 [unfolded same]
    by (simp add: stamped_def plain_user_def get_or_def order_o1_def order_o2_def example_db_def
        owned_by_def)
  have 2: "fst (get_orders example_env ''token-a0'' example_state)
     = Ok \<lparr>reply_orders = [order_o1, order_o2], reply_total = 2,
           reply_lastSync = JStr ''2024-02-20T00:00:00''\<rparr>"
    using get_orders_ownership [OF pair_fst_snd [OF example_verify_a0] a
        pair_fst_snd [OF example_reload_a0(1)], unfolded example_reload_a0(2)]
    by (simp add: stamped_def admin_user_def get_or_def example_db_def)
  show ?thesis using 1 2 sv(1) same by simp
qed

end
